theory Spec2Isabelle
  imports Main "HOL-Library.Sublist"
begin

section \<open>Values of the host language\<close>

text \<open>
  The program is \<^verbatim>\<open>src/sdk-installer.ts\<close>. It is a sequence of calls into the
  host: the process environment, the file system, the action toolkit
  (\<^verbatim>\<open>core\<close>, \<^verbatim>\<open>exec\<close>, \<^verbatim>\<open>io\<close>) and external
  commands. A value that may be \<^verbatim>\<open>undefined\<close> (an environment variable, an
  optional parameter) is a \<open>string option\<close>.
\<close>

abbreviation dq :: string where "dq \<equiv> [CHR 0x22]"
abbreviation bs :: string where "bs \<equiv> [CHR 0x5C]"
abbreviation sq :: string where "sq \<equiv> [CHR 0x27]"
abbreviation nl :: string where "nl \<equiv> [CHR 0x0A]"

text \<open>Truthiness of a possibly undefined string: \<^verbatim>\<open>undefined\<close> and the empty string are falsy.\<close>

definition truthy :: "string option \<Rightarrow> bool" where
  "truthy v = (case v of None \<Rightarrow> False | Some s \<Rightarrow> s \<noteq> [])"

text \<open>A template literal \<^verbatim>\<open>${v}\<close> prints \<^verbatim>\<open>undefined\<close> as the word.\<close>

definition interp :: "string option \<Rightarrow> string" where
  "interp v = (case v of None \<Rightarrow> ''undefined'' | Some s \<Rightarrow> s)"

text \<open>\<^verbatim>\<open>v || d\<close> on strings.\<close>

definition orElse :: "string option \<Rightarrow> string \<Rightarrow> string" where
  "orElse v d = (case v of None \<Rightarrow> d | Some s \<Rightarrow> if s = [] then d else s)"

text \<open>Decimal printing of the numbers that templates interpolate.\<close>

definition digit :: "nat \<Rightarrow> char" where
  "digit n = char_of (48 + n)"

fun showNat :: "nat \<Rightarrow> string" where
  "showNat n = (if n < 10 then [digit n] else showNat (n div 10) @ [digit (n mod 10)])"

declare showNat.simps [simp del]

definition showInt :: "int \<Rightarrow> string" where
  "showInt i = (if i < 0 then CHR ''-'' # showNat (nat (- i)) else showNat (nat i))"

text \<open>\<^verbatim>\<open>s.split(c)\<close> for a one-character separator: never the empty list.\<close>

fun splitOn :: "char \<Rightarrow> string \<Rightarrow> string list" where
  "splitOn c [] = [[]]"
| "splitOn c (x # xs) =
     (if x = c then [] # splitOn c xs
      else (case splitOn c xs of [] \<Rightarrow> [[x]] | y # ys \<Rightarrow> (x # y) # ys))"

text \<open>\<^verbatim>\<open>xs.join(sep)\<close>.\<close>

fun joinWith :: "string \<Rightarrow> string list \<Rightarrow> string" where
  "joinWith sep [] = []"
| "joinWith sep [x] = x"
| "joinWith sep (x # y # ys) = x @ sep @ joinWith sep (y # ys)"

text \<open>\<^verbatim>\<open>s.includes(sub)\<close>: \<open>sub\<close> occurs in \<open>s\<close> as a substring.\<close>

definition startsWith :: "string \<Rightarrow> string \<Rightarrow> bool" where
  "startsWith s sub = (take (length sub) s = sub)"

fun includesStr :: "string \<Rightarrow> string \<Rightarrow> bool" where
  "includesStr [] sub = (sub = [])"
| "includesStr (x # xs) sub = (startsWith (x # xs) sub \<or> includesStr xs sub)"

section \<open>The host: file system, environment, external commands\<close>

text \<open>
  The disk maps a path, as the string the program builds, to what is there. Paths are not
  normalised; links, ownership and permission bits are not part of the model.
\<close>

datatype node = Dir | File string

type_synonym disk = "string \<Rightarrow> node option"

text \<open>
  The directories above a path: its prefixes that end before a slash (the root apart).
  \<open>dirsAbove acc p\<close> walks \<open>p\<close> with the prefix \<open>acc\<close> already read.
\<close>

fun dirsAbove :: "string \<Rightarrow> string \<Rightarrow> string list" where
  "dirsAbove acc [] = []"
| "dirsAbove acc (c # cs) =
     (if c = CHR ''/'' \<and> acc \<noteq> [] then acc # dirsAbove (acc @ [c]) cs
      else dirsAbove (acc @ [c]) cs)"

definition ancestors :: "string \<Rightarrow> string list" where
  "ancestors p = dirsAbove [] p"

definition isFile :: "disk \<Rightarrow> string \<Rightarrow> bool" where
  "isFile d p = (case d p of Some (File c) \<Rightarrow> True | _ \<Rightarrow> False)"

definition underDirs :: "disk \<Rightarrow> string \<Rightarrow> bool" where
  "underDirs d p = list_all (\<lambda>a. d a = Some Dir) (ancestors p)"

text \<open>\<^verbatim>\<open>fs.existsSync(p)\<close>: something is at \<open>p\<close> and every directory above it is one.\<close>

definition existsSync :: "disk \<Rightarrow> string \<Rightarrow> bool" where
  "existsSync d p = (d p \<noteq> None \<and> underDirs d p)"

text \<open>
  Everything the program does to the outside is recorded, in order: \<open>Exec\<close> when
  \<^verbatim>\<open>exec.exec\<close> is called with a command line, the others when the call has taken effect.
\<close>

datatype event =
    SetFailed string
  | Log string
  | Exec string
  | MkdirP string
  | RmRF string
  | AddPath string
  | ExportVariable string string
  | WriteFile string string

text \<open>
  The state a run works in. \<open>platform\<close> is \<^verbatim>\<open>process.platform\<close>, \<open>env\<close> is
  \<^verbatim>\<open>process.env\<close>, \<open>now\<close> is what \<^verbatim>\<open>Date.now()\<close> answers. \<open>inputs\<close> is what
  \<^verbatim>\<open>core.getInput\<close> answers for a name: the value given to the action with the white space
  at its ends removed, and the empty string when none is given. So an input given as blanks
  only is the empty string here, as it is for the program.
\<close>

record world =
  platform :: string
  env :: "string \<Rightarrow> string option"
  inputs :: "string \<Rightarrow> string"
  disk :: disk
  now :: nat
  trace :: "event list"

text \<open>
  What an external command does is not code of this program: it is a parameter. Given the
  command line, the environment and the disk, a \<open>shell\<close> answers with the exit code
  and the disk the command leaves.
\<close>

type_synonym shell = "string \<Rightarrow> (string \<Rightarrow> string option) \<Rightarrow> disk \<Rightarrow> nat \<times> disk"

datatype error =
    ProcessFailed string nat
  | ENOENT string
  | ENOTDIR string
  | EISDIR string

text \<open>
  A statement ends normally with a value, by \<^verbatim>\<open>return\<close> out of the enclosing function,
  or by throwing (a rejected promise that nothing catches).
\<close>

datatype 'a outcome = Val 'a | Returned | Thrown error

type_synonym 'a prog = "world \<Rightarrow> 'a outcome \<times> world"

definition ret :: "'a \<Rightarrow> 'a prog" where
  "ret a w = (Val a, w)"

definition returnEarly :: "'a prog" where
  "returnEarly w = (Returned, w)"

definition throw :: "error \<Rightarrow> 'a prog" where
  "throw e w = (Thrown e, w)"

definition bind :: "'a prog \<Rightarrow> ('a \<Rightarrow> 'b prog) \<Rightarrow> 'b prog" where
  "bind m f w =
     (case m w of
        (Val a, w1) \<Rightarrow> f a w1
      | (Returned, w1) \<Rightarrow> (Returned, w1)
      | (Thrown e, w1) \<Rightarrow> (Thrown e, w1))"

text \<open>A block of statements, run in order.\<close>

fun block :: "unit prog list \<Rightarrow> unit prog" where
  "block [] = ret ()"
| "block (m # ms) = bind m (\<lambda>_. block ms)"

text \<open>A statement whose text reads the current state.\<close>

definition reading :: "(world \<Rightarrow> 'a prog) \<Rightarrow> 'a prog" where
  "reading f w = f w w"

definition onlyIf :: "bool \<Rightarrow> unit prog \<Rightarrow> unit prog" where
  "onlyIf b m = (if b then m else ret ())"

text \<open>The body of a function of result \<^verbatim>\<open>void\<close>: \<^verbatim>\<open>return\<close> ends it normally.\<close>

definition asyncVoid :: "unit prog \<Rightarrow> unit prog" where
  "asyncVoid body w =
     (case body w of
        (Returned, w1) \<Rightarrow> (Val (), w1)
      | r \<Rightarrow> r)"

definition emit :: "event \<Rightarrow> world \<Rightarrow> world" where
  "emit e w = w\<lparr>trace := trace w @ [e]\<rparr>"

definition consoleLog :: "string \<Rightarrow> unit prog" where
  "consoleLog msg w = (Val (), emit (Log msg) w)"

definition setFailed :: "string \<Rightarrow> unit prog" where
  "setFailed msg w = (Val (), emit (SetFailed msg) w)"

text \<open>\<^verbatim>\<open>core.exportVariable\<close> sets the variable in this process and for later steps.\<close>

definition exportVariable :: "string \<Rightarrow> string \<Rightarrow> unit prog" where
  "exportVariable name val w =
     (Val (), emit (ExportVariable name val) (w\<lparr>env := (env w)(name := Some val)\<rparr>))"

text \<open>\<^verbatim>\<open>core.addPath\<close> prepends to \<^verbatim>\<open>PATH\<close> of this process and of later steps.\<close>

definition addPath :: "string \<Rightarrow> unit prog" where
  "addPath p w =
     (Val (), emit (AddPath p)
        (w\<lparr>env := (env w)(''PATH'' := Some (p @ '':'' @ interp (env w ''PATH'')))\<rparr>))"

text \<open>
  \<^verbatim>\<open>exec.exec\<close> runs the command and waits; a non-zero exit code rejects (the program
  passes no option to ignore it). What the command did to the disk stays.
\<close>

definition exec :: "shell \<Rightarrow> string \<Rightarrow> unit prog" where
  "exec sh cmd w =
     (let (code, d) = sh cmd (env w) (disk w);
          w1 = emit (Exec cmd) (w\<lparr>disk := d\<rparr>)
      in if code = 0 then (Val (), w1) else (Thrown (ProcessFailed cmd code), w1))"

text \<open>\<^verbatim>\<open>io.mkdirP\<close>: the directory and every one above it; a file in the way throws.\<close>

definition mkdirP :: "string \<Rightarrow> unit prog" where
  "mkdirP p w =
     (let ps = ancestors p @ [p] in
      if list_ex (isFile (disk w)) ps then (Thrown (ENOTDIR p), w)
      else (Val (), emit (MkdirP p)
              (w\<lparr>disk := (\<lambda>q. if q \<in> set ps then Some Dir else disk w q)\<rparr>)))"

text \<open>\<^verbatim>\<open>io.rmRF\<close>: the path and everything below it; nothing there is not an error.\<close>

definition rmRF :: "string \<Rightarrow> unit prog" where
  "rmRF p w =
     (Val (), emit (RmRF p)
        (w\<lparr>disk := (\<lambda>q. if q = p \<or> startsWith q (p @ ''/'') then None else disk w q)\<rparr>))"

text \<open>
  \<^verbatim>\<open>fs.writeFileSync\<close> creates or replaces the file; it creates no directory: a missing
  parent throws \<^verbatim>\<open>ENOENT\<close>, a directory at the path \<^verbatim>\<open>EISDIR\<close>. Where a parent is
  there but is a regular file Node reports \<^verbatim>\<open>ENOTDIR\<close>; the two are not told apart here,
  \<open>ENOENT\<close> stands for every parent that is not a directory.
\<close>

definition writeFileSync :: "string \<Rightarrow> string \<Rightarrow> unit prog" where
  "writeFileSync p content w =
     (if \<not> underDirs (disk w) p then (Thrown (ENOENT p), w)
      else if disk w p = Some Dir then (Thrown (EISDIR p), w)
      else (Val (), emit (WriteFile p content) (w\<lparr>disk := (disk w)(p := Some (File content))\<rparr>)))"

section \<open>The program\<close>

definition BUILD_TOOLS_VERSION :: string where
  "BUILD_TOOLS_VERSION = ''30.0.0''"

definition CMDLINE_TOOLS_URL_MAC :: string where
  "CMDLINE_TOOLS_URL_MAC = ''https://dl.google.com/android/repository/commandlinetools-mac-6609375_latest.zip''"

definition CMDLINE_TOOLS_URL_LINUX :: string where
  "CMDLINE_TOOLS_URL_LINUX = ''https://dl.google.com/android/repository/commandlinetools-linux-6609375_latest.zip''"

definition BASE_ANDROID_SDK_URL_MAC :: string where
  "BASE_ANDROID_SDK_URL_MAC = ''https://dl.google.com/android/repository/sdk-tools-darwin-4333796.zip''"

definition BASE_ANDROID_SDK_URL_LINUX :: string where
  "BASE_ANDROID_SDK_URL_LINUX = ''https://dl.google.com/android/repository/sdk-tools-linux-4333796.zip''"

text \<open>\<^verbatim>\<open>process.platform === 'darwin'\<close>\<close>

definition isOnMac :: "world \<Rightarrow> bool" where
  "isOnMac w = (platform w = ''darwin'')"

text \<open>\<^verbatim>\<open>${process.env.ANDROID_HOME}\<close>\<close>

definition androidHome :: "world \<Rightarrow> string" where
  "androidHome w = interp (env w ''ANDROID_HOME'')"

subsection \<open>installBaseSdk (lines 99 to 131)\<close>

definition baseSdkUrl :: "bool \<Rightarrow> string" where
  "baseSdkUrl mac = (if mac then BASE_ANDROID_SDK_URL_MAC else BASE_ANDROID_SDK_URL_LINUX)"

definition androidTmpPath :: string where
  "androidTmpPath = ''/tmp/android-sdk.zip''"

definition sdkHomeOf :: "string \<Rightarrow> string" where
  "sdkHomeOf h = h @ ''/sdk_home''"

definition backupCommand :: "string \<Rightarrow> nat \<Rightarrow> string" where
  "backupCommand sdkHome t = ''mv '' @ sdkHome @ '' '' @ sdkHome @ ''.backup.'' @ showNat t"

definition extraPaths :: "string \<Rightarrow> string" where
  "extraPaths h =
     h @ ''/bin:'' @ h @ ''/tools:'' @ h @ ''/tools/bin:'' @ h @ ''/platform-tools:''
       @ h @ ''/platform-tools/bin''"

definition pathWithoutAndroid :: "string \<Rightarrow> string" where
  "pathWithoutAndroid path =
     joinWith '':'' (filter (\<lambda>entry. \<not> includesStr entry ''Android'') (splitOn CHR '':'' path))"

definition installBaseSdk :: "shell \<Rightarrow> bool prog" where
  "installBaseSdk sh =
     reading (\<lambda>w0.
       let url = baseSdkUrl (isOnMac w0);
           home = androidHome w0;
           sdkHome = sdkHomeOf home
       in bind
            (block
               [consoleLog (''Installing Android SDK on '' @ home),
                exportVariable ''ANDROID_SDK_HOME'' sdkHome,
                reading (\<lambda>w. onlyIf (existsSync (disk w) sdkHome)
                                 (exec sh (backupCommand sdkHome (now w)))),
                exec sh (''curl -L '' @ url @ '' -o '' @ androidTmpPath @ '' -s''),
                exec sh (''unzip -q '' @ androidTmpPath @ '' -d '' @ home),
                exec sh (''rm '' @ androidTmpPath),
                exec sh (''mkdir -p '' @ sdkHome),
                reading (\<lambda>w. exportVariable ''PATH''
                                 (extraPaths home @ '':'' @ pathWithoutAndroid (orElse (env w ''PATH'') [])))])
            (\<lambda>_. ret True))"

subsection \<open>acceptLicenses (lines 133 to 142)\<close>

definition acceptLicenses :: "shell \<Rightarrow> bool prog" where
  "acceptLicenses sh =
     reading (\<lambda>w0.
       let home = androidHome w0
       in bind
            (block
               [consoleLog (''Accepting Android SDK licenses on '' @ home),
                reading (\<lambda>w. exec sh (''mkdir -p '' @ interp (env w ''ANDROID_SDK_HOME''))),
                reading (\<lambda>w. exec sh (''touch '' @ interp (env w ''ANDROID_SDK_HOME'') @ ''/repositories.cfg'')),
                exec sh (''mkdir -p '' @ home @ ''/licenses''),
                exec sh (''sh -c '' @ bs @ dq @ ''yes '' @ sq @ ''y'' @ sq @ '' | '' @ home
                          @ ''/tools/bin/sdkmanager --licenses > /dev/null'' @ dq)])
            (\<lambda>_. ret True))"

subsection \<open>installAndroidSdk (lines 16 to 97)\<close>

text \<open>Lines 19 to 23: \<^verbatim>\<open>ANDROID_HOME\<close> must be set.\<close>

definition requireAndroidHome :: "unit prog" where
  "requireAndroidHome =
     reading (\<lambda>w.
       onlyIf (\<not> truthy (env w ''ANDROID_HOME''))
         (block
            [setFailed (''ANDROID_HOME is a required environment variable and is not set.'' @ nl
                        @ ''Please double check your host settings.''),
             returnEarly]))"

text \<open>
  Lines 25 to 38: the base SDK, unless its directory is there. The logged message is a
  plain string in the source (single quotes), so nothing is interpolated.
\<close>

definition ensureBaseSdk :: "shell \<Rightarrow> unit prog" where
  "ensureBaseSdk sh =
     reading (\<lambda>w.
       if existsSync (disk w) (androidHome w)
       then consoleLog ''Using previous installation of base Android SDK, found on ${process.env.ANDROID_HOME}''
       else bind (installBaseSdk sh) (\<lambda>installed.
            bind (onlyIf (\<not> installed)
                    (block [setFailed ''Could not install base Android SDK.'', returnEarly])) (\<lambda>_.
            bind (acceptLicenses sh) (\<lambda>licenses.
                  onlyIf (\<not> installed \<or> \<not> licenses)
                    (block [setFailed ''Could not accept Android SDK licenses.'', returnEarly])))))"

text \<open>
  Lines 40 to 46: ownership of the SDK root, not on macOS and not on a fresh installation.
  \<open>inputs w ''fresh-sdk-installation''\<close> is the string \<^verbatim>\<open>core.getInput\<close> answers, tested
  for truthiness as the source does.
\<close>

definition chownCommand :: "string \<Rightarrow> string" where
  "chownCommand h = ''sh -c '' @ bs @ dq @ ''sudo chown $USER:$USER '' @ h @ '' -R''"

definition normalizeOwnership :: "shell \<Rightarrow> unit prog" where
  "normalizeOwnership sh =
     reading (\<lambda>w.
       let freshInstall = inputs w ''fresh-sdk-installation''
       in onlyIf (\<not> isOnMac w \<and> freshInstall = []) (exec sh (chownCommand (androidHome w))))"

text \<open>Lines 48 to 59: the command-line tools, unless their directory is there.\<close>

definition cmdlineToolsUrl :: "bool \<Rightarrow> string" where
  "cmdlineToolsUrl mac = (if mac then CMDLINE_TOOLS_URL_MAC else CMDLINE_TOOLS_URL_LINUX)"

definition cmdlineToolsPathOf :: "string \<Rightarrow> string" where
  "cmdlineToolsPathOf h = h @ ''/cmdline-tools''"

definition installCmdlineTools :: "shell \<Rightarrow> unit prog" where
  "installCmdlineTools sh =
     reading (\<lambda>w.
       let cmdlineToolsPath = cmdlineToolsPathOf (androidHome w)
       in onlyIf (\<not> existsSync (disk w) cmdlineToolsPath)
            (let sdkUrl = cmdlineToolsUrl (isOnMac w)
             in block
                  [consoleLog ''Installing new cmdline-tools.'',
                   mkdirP (androidHome w @ ''/cmdline-tools''),
                   exec sh (''curl -fo commandlinetools.zip '' @ sdkUrl),
                   exec sh (''unzip -q commandlinetools.zip -d '' @ cmdlineToolsPath),
                   rmRF ''commandlinetools.zip'',
                   addPath (cmdlineToolsPath @ ''/tools:'' @ cmdlineToolsPath @ ''/tools/bin:''
                            @ androidHome w @ ''/platform-tools'')]))"

text \<open>Lines 61 to 71: the two license marker files.\<close>

definition sdkPreviewLicensePath :: "string \<Rightarrow> string" where
  "sdkPreviewLicensePath h = h @ ''/licenses/android-sdk-preview-license''"

definition sdkArmDbtLicensePath :: "string \<Rightarrow> string" where
  "sdkArmDbtLicensePath h = h @ ''/licenses/android-sdk-arm-dbt-license''"

definition sdkPreviewLicense :: string where
  "sdkPreviewLicense = nl @ ''84831b9409646a918e30573bab4c9c91346d8abd''"

definition sdkArmDbtLicense :: string where
  "sdkArmDbtLicense = nl @ ''859f317696f67ef3d7f30a50a5560e7834b43903''"

definition writeLicenseMarkers :: "int \<Rightarrow> unit prog" where
  "writeLicenseMarkers apiLevel =
     reading (\<lambda>w0.
       let h = androidHome w0
       in block
            [reading (\<lambda>w. onlyIf (\<not> isOnMac w \<and> \<not> existsSync (disk w) (sdkPreviewLicensePath h))
                             (writeFileSync (sdkPreviewLicensePath h) sdkPreviewLicense)),
             reading (\<lambda>w. onlyIf (apiLevel = 30 \<and> \<not> existsSync (disk w) (sdkArmDbtLicensePath h))
                             (writeFileSync (sdkArmDbtLicensePath h) sdkArmDbtLicense))])"

text \<open>Lines 73 to 75: build tools, platform tools and the platform of the API level.\<close>

definition sdkmanagerInstall :: "string \<Rightarrow> string" where
  "sdkmanagerInstall pkgs = ''sh -c '' @ bs @ dq @ ''sdkmanager --install '' @ pkgs @ '' > /dev/null'' @ dq"

definition installPlatform :: "shell \<Rightarrow> int \<Rightarrow> unit prog" where
  "installPlatform sh apiLevel =
     block
       [consoleLog ''Installing latest build tools, platform tools, and platform.'',
        exec sh (sdkmanagerInstall
                   (sq @ ''build-tools;'' @ BUILD_TOOLS_VERSION @ sq @ '' platform-tools '' @ sq
                    @ ''platforms;android-'' @ showInt apiLevel @ sq))]"

text \<open>Lines 76 to 85: the emulator, a given build or the latest.\<close>

definition emulatorArchiveUrl :: "bool \<Rightarrow> string \<Rightarrow> string" where
  "emulatorArchiveUrl mac build =
     ''https://dl.google.com/android/repository/emulator-''
       @ (if mac then ''darwin'' else ''linux'') @ ''-'' @ build @ ''.zip''"

definition installEmulator :: "shell \<Rightarrow> string option \<Rightarrow> unit prog" where
  "installEmulator sh emulatorBuild =
     reading (\<lambda>w.
       if truthy emulatorBuild
       then block
              [consoleLog (''Installing emulator build '' @ interp emulatorBuild @ ''.''),
               exec sh (''curl -fo emulator.zip '' @ emulatorArchiveUrl (isOnMac w) (interp emulatorBuild)),
               rmRF (androidHome w @ ''/emulator''),
               exec sh (''unzip -q emulator.zip -d '' @ androidHome w),
               rmRF ''emulator.zip'']
       else block
              [consoleLog ''Installing latest emulator.'',
               exec sh (sdkmanagerInstall ''emulator'')])"

text \<open>Lines 86 and 87: the system image.\<close>

definition installSystemImage :: "shell \<Rightarrow> int \<Rightarrow> string \<Rightarrow> string \<Rightarrow> unit prog" where
  "installSystemImage sh apiLevel target arch =
     block
       [consoleLog ''Installing system images.'',
        exec sh (sdkmanagerInstall
                   (sq @ ''system-images;android-'' @ showInt apiLevel @ '';'' @ target @ '';'' @ arch @ sq))]"

text \<open>Lines 89 to 96: NDK and CMake, when a version is given.\<close>

definition installNdk :: "shell \<Rightarrow> string option \<Rightarrow> unit prog" where
  "installNdk sh ndkVersion =
     onlyIf (truthy ndkVersion)
       (block
          [consoleLog (''Installing NDK '' @ interp ndkVersion @ ''.''),
           exec sh (sdkmanagerInstall (sq @ ''ndk;'' @ interp ndkVersion @ sq))])"

definition installCmake :: "shell \<Rightarrow> string option \<Rightarrow> unit prog" where
  "installCmake sh cmakeVersion =
     onlyIf (truthy cmakeVersion)
       (block
          [consoleLog (''Installing CMake '' @ interp cmakeVersion @ ''.''),
           exec sh (sdkmanagerInstall (sq @ ''cmake;'' @ interp cmakeVersion @ sq))])"

definition installAndroidSdk ::
  "shell \<Rightarrow> int \<Rightarrow> string \<Rightarrow> string \<Rightarrow> string option \<Rightarrow> string option \<Rightarrow> string option \<Rightarrow> unit prog" where
  "installAndroidSdk sh apiLevel target arch emulatorBuild ndkVersion cmakeVersion =
     asyncVoid
       (block
          [requireAndroidHome,
           ensureBaseSdk sh,
           normalizeOwnership sh,
           installCmdlineTools sh,
           writeLicenseMarkers apiLevel,
           installPlatform sh apiLevel,
           installEmulator sh emulatorBuild,
           installSystemImage sh apiLevel target arch,
           installNdk sh ndkVersion,
           installCmake sh cmakeVersion])"

section \<open>Reasoning about statements\<close>

text \<open>\<open>ensures m w Q\<close>: run from \<open>w\<close>, the statement \<open>m\<close> ends with an outcome and a world that satisfy \<open>Q\<close>.\<close>

definition ensures :: "'a prog \<Rightarrow> world \<Rightarrow> ('a outcome \<Rightarrow> world \<Rightarrow> bool) \<Rightarrow> bool" where
  "ensures m w Q = Q (fst (m w)) (snd (m w))"

lemma ensuresD: "ensures m w Q \<Longrightarrow> m w = (r, w') \<Longrightarrow> Q r w'"
  by (simp add: ensures_def)

lemma ensures_mono: "ensures m w Q \<Longrightarrow> (\<And>r w1. Q r w1 \<Longrightarrow> Q' r w1) \<Longrightarrow> ensures m w Q'"
  by (simp add: ensures_def)

lemma ensures_bind:
  assumes "ensures m w Q1"
    and "\<And>a w1. Q1 (Val a) w1 \<Longrightarrow> ensures (f a) w1 Q"
    and "\<And>w1. Q1 Returned w1 \<Longrightarrow> Q Returned w1"
    and "\<And>e w1. Q1 (Thrown e) w1 \<Longrightarrow> Q (Thrown e) w1"
  shows "ensures (bind m f) w Q"
proof (cases "m w")
  case (Pair r w1)
  with assms(1) have q1: "Q1 r w1" by (simp add: ensures_def)
  show ?thesis
  proof (cases r)
    case (Val a)
    with Pair q1 assms(2)[of a w1] show ?thesis by (simp add: ensures_def bind_def)
  next
    case Returned
    with Pair q1 assms(3)[of w1] show ?thesis by (simp add: ensures_def bind_def)
  next
    case (Thrown e)
    with Pair q1 assms(4)[of e w1] show ?thesis by (simp add: ensures_def bind_def)
  qed
qed

lemma ensures_ret: "Q (Val a) w \<Longrightarrow> ensures (ret a) w Q"
  by (simp add: ensures_def ret_def)

lemma ensures_returnEarly: "Q Returned w \<Longrightarrow> ensures returnEarly w Q"
  by (simp add: ensures_def returnEarly_def)

lemma ensures_reading: "ensures (f w) w Q \<Longrightarrow> ensures (reading f) w Q"
  by (simp add: ensures_def reading_def)

lemma ensures_onlyIf:
  "(b \<Longrightarrow> ensures m w Q) \<Longrightarrow> (\<not> b \<Longrightarrow> Q (Val ()) w) \<Longrightarrow> ensures (onlyIf b m) w Q"
  by (simp add: onlyIf_def ensures_def ret_def)

lemma ensures_asyncVoid:
  "ensures m w (\<lambda>r. Q (case r of Returned \<Rightarrow> Val () | _ \<Rightarrow> r)) \<Longrightarrow> ensures (asyncVoid m) w Q"
  by (cases "m w"; cases "fst (m w)") (auto simp: asyncVoid_def ensures_def)

lemma ensures_block_Nil: "Q (Val ()) w \<Longrightarrow> ensures (block []) w Q"
  by (simp add: ensures_ret)

lemma ensures_block_Cons:
  assumes "ensures m w Q1"
    and "\<And>w1. Q1 (Val ()) w1 \<Longrightarrow> ensures (block ms) w1 Q"
    and "\<And>w1. Q1 Returned w1 \<Longrightarrow> Q Returned w1"
    and "\<And>e w1. Q1 (Thrown e) w1 \<Longrightarrow> Q (Thrown e) w1"
  shows "ensures (block (m # ms)) w Q"
  unfolding block.simps
  by (rule ensures_bind[OF assms(1)]) (simp_all add: assms(2,3,4))

text \<open>A block keeps what each of its statements keeps.\<close>

lemma ensures_block_inv:
  assumes "Inv w" and "\<And>m w1. m \<in> set ms \<Longrightarrow> Inv w1 \<Longrightarrow> ensures m w1 (\<lambda>_. Inv)"
  shows "ensures (block ms) w (\<lambda>_. Inv)"
  using assms
proof (induction ms arbitrary: w)
  case Nil
  then show ?case by (simp add: ensures_ret)
next
  case (Cons m ms)
  show ?case
  proof (rule ensures_block_Cons[where ?Q1.0 = "\<lambda>_. Inv"])
    show "ensures m w (\<lambda>_. Inv)" using Cons.prems by simp
  next
    fix w1 assume "Inv w1"
    then show "ensures (block ms) w1 (\<lambda>_. Inv)" using Cons.IH Cons.prems(2) by simp
  qed simp_all
qed

lemma block_Cons_Val: "m w = (Val (), w1) \<Longrightarrow> block (m # ms) w = block ms w1"
  by (simp add: bind_def)

lemma ensures_block_Val:
  "m w = (Val (), w1) \<Longrightarrow> ensures (block ms) w1 Q \<Longrightarrow> ensures (block (m # ms)) w Q"
  by (simp add: ensures_def bind_def)

lemma block_Cons_Returned: "m w = (Returned, w1) \<Longrightarrow> block (m # ms) w = (Returned, w1)"
  by (simp add: bind_def)

lemma block_Cons_Thrown: "m w = (Thrown e, w1) \<Longrightarrow> block (m # ms) w = (Thrown e, w1)"
  by (simp add: bind_def)

lemma block_append: "block (xs @ ys) = bind (block xs) (\<lambda>_. block ys)"
proof (induction xs)
  case Nil
  show ?case by (rule ext) (simp add: bind_def ret_def)
next
  case (Cons m xs)
  show ?case
    by (rule ext) (simp add: Cons bind_def split: prod.splits outcome.splits)
qed

subsection \<open>What stays the same, and what is emitted\<close>

definition sameHost :: "world \<Rightarrow> world \<Rightarrow> bool" where
  "sameHost w0 w =
     (platform w = platform w0 \<and> inputs w = inputs w0 \<and> now w = now w0
      \<and> env w ''ANDROID_HOME'' = env w0 ''ANDROID_HOME'')"

text \<open>
  Since \<open>w0\<close>: the host is the same, \<open>S\<close> holds of the environment and the disk, and every
  event emitted satisfies \<open>G\<close>.
\<close>

definition holds ::
  "(event \<Rightarrow> bool) \<Rightarrow> ((string \<Rightarrow> string option) \<Rightarrow> disk \<Rightarrow> bool) \<Rightarrow> world \<Rightarrow> world \<Rightarrow> bool" where
  "holds G S w0 w =
     (sameHost w0 w \<and> S (env w) (disk w) \<and> (\<exists>evs. trace w = trace w0 @ evs \<and> list_all G evs))"

text \<open>The same, for a statement that does not leave the function.\<close>

definition kept ::
  "(event \<Rightarrow> bool) \<Rightarrow> ((string \<Rightarrow> string option) \<Rightarrow> disk \<Rightarrow> bool) \<Rightarrow> world
     \<Rightarrow> 'a outcome \<Rightarrow> world \<Rightarrow> bool" where
  "kept G S w0 r w = (holds G S w0 w \<and> r \<noteq> Returned)"

lemma holds_start: "S (env w) (disk w) \<Longrightarrow> holds G S w w"
  by (simp add: holds_def sameHost_def)

lemma holds_sameHost: "holds G S w0 w \<Longrightarrow> sameHost w0 w"
  by (simp add: holds_def)

lemma holds_emit:
  "holds G S w0 w \<Longrightarrow> G e \<Longrightarrow> holds G S w0 (emit e w)"
  by (auto simp: holds_def sameHost_def emit_def)

lemma holds_weaken:
  "holds G S w0 w \<Longrightarrow> (\<And>e d. S e d \<Longrightarrow> S' e d) \<Longrightarrow> holds G S' w0 w"
  by (auto simp: holds_def)

lemma holds_trans:
  "holds G S w0 w1 \<Longrightarrow> holds G S' w1 w2 \<Longrightarrow> holds G S' w0 w2"
  by (auto simp: holds_def sameHost_def)

lemma kept_consoleLog:
  "G (Log msg) \<Longrightarrow> holds G S w0 w \<Longrightarrow> ensures (consoleLog msg) w (kept G S w0)"
  by (simp add: ensures_def consoleLog_def holds_emit kept_def)

lemma kept_setFailed:
  "G (SetFailed msg) \<Longrightarrow> holds G S w0 w \<Longrightarrow> ensures (setFailed msg) w (kept G S w0)"
  by (simp add: ensures_def setFailed_def holds_emit kept_def)

lemma kept_exec:
  assumes "G (Exec c)" and "\<And>e d. S e d \<Longrightarrow> S e (snd (sh c e d))" and "holds G S w0 w"
  shows "ensures (exec sh c) w (kept G S w0)"
proof -
  have "holds G S w0 (w\<lparr>disk := snd (sh c (env w) (disk w))\<rparr>)"
    using assms(2,3) by (auto simp: holds_def sameHost_def)
  then have "holds G S w0 (emit (Exec c) (w\<lparr>disk := snd (sh c (env w) (disk w))\<rparr>))"
    using assms(1) by (rule holds_emit)
  then show ?thesis
    by (cases "sh c (env w) (disk w)") (simp add: ensures_def exec_def kept_def Let_def)
qed

lemma kept_exportVariable:
  assumes "G (ExportVariable name val)" and "name \<noteq> ''ANDROID_HOME''"
    and "\<And>e d. S e d \<Longrightarrow> S (e(name := Some val)) d" and "holds G S w0 w"
  shows "ensures (exportVariable name val) w (kept G S w0)"
proof -
  have "holds G S w0 (w\<lparr>env := (env w)(name := Some val)\<rparr>)"
    using assms(2,3,4) by (auto simp: holds_def sameHost_def)
  then show ?thesis
    using assms(1) by (simp add: ensures_def exportVariable_def holds_emit kept_def)
qed

lemma kept_addPath:
  assumes "G (AddPath p)" and "\<And>e d v. S e d \<Longrightarrow> S (e(''PATH'' := Some v)) d" and "holds G S w0 w"
  shows "ensures (addPath p) w (kept G S w0)"
proof -
  have "holds G S w0 (w\<lparr>env := (env w)(''PATH'' := Some (p @ '':'' @ interp (env w ''PATH'')))\<rparr>)"
    using assms(2,3) by (auto simp: holds_def sameHost_def)
  then show ?thesis
    using assms(1) by (simp add: ensures_def addPath_def holds_emit kept_def)
qed

lemma kept_mkdirP:
  assumes "G (MkdirP p)"
    and "\<And>e d. S e d \<Longrightarrow> S e (\<lambda>q. if q \<in> set (ancestors p @ [p]) then Some Dir else d q)"
    and "holds G S w0 w"
  shows "ensures (mkdirP p) w (kept G S w0)"
proof -
  have "holds G S w0 (w\<lparr>disk := (\<lambda>q. if q \<in> set (ancestors p @ [p]) then Some Dir else disk w q)\<rparr>)"
    using assms(2,3) by (auto simp: holds_def sameHost_def)
  then show ?thesis
    using assms(1,3) by (simp add: ensures_def mkdirP_def Let_def holds_emit kept_def)
qed

lemma kept_rmRF:
  assumes "G (RmRF p)"
    and "\<And>e d. S e d \<Longrightarrow> S e (\<lambda>q. if q = p \<or> startsWith q (p @ ''/'') then None else d q)"
    and "holds G S w0 w"
  shows "ensures (rmRF p) w (kept G S w0)"
proof -
  have "holds G S w0 (w\<lparr>disk := (\<lambda>q. if q = p \<or> startsWith q (p @ ''/'') then None else disk w q)\<rparr>)"
    using assms(2,3) by (auto simp: holds_def sameHost_def)
  then show ?thesis
    using assms(1) by (simp add: ensures_def rmRF_def holds_emit kept_def)
qed

lemma kept_writeFileSync:
  assumes "G (WriteFile p c)"
    and "\<And>e d. S e d \<Longrightarrow> S e (d(p := Some (File c)))"
    and "holds G S w0 w"
  shows "ensures (writeFileSync p c) w (kept G S w0)"
proof -
  have "holds G S w0 (w\<lparr>disk := (disk w)(p := Some (File c))\<rparr>)"
    using assms(2,3) by (auto simp: holds_def sameHost_def)
  then show ?thesis
    using assms(1,3) by (simp add: ensures_def writeFileSync_def holds_emit kept_def)
qed

lemma kept_onlyIf:
  "(b \<Longrightarrow> ensures m w (kept G S w0)) \<Longrightarrow> holds G S w0 w \<Longrightarrow> ensures (onlyIf b m) w (kept G S w0)"
  by (rule ensures_onlyIf) (simp_all add: kept_def)

lemma kept_block_Nil: "holds G S w0 w \<Longrightarrow> ensures (block []) w (kept G S w0)"
  by (simp add: ensures_def ret_def kept_def)

lemma kept_block_Cons:
  assumes "ensures m w (kept G S w0)"
    and "\<And>w1. holds G S w0 w1 \<Longrightarrow> ensures (block ms) w1 (kept G S w0)"
  shows "ensures (block (m # ms)) w (kept G S w0)"
  using assms(1)
proof (rule ensures_block_Cons)
  fix w1 assume "kept G S w0 (Val ()) w1"
  then show "ensures (block ms) w1 (kept G S w0)" using assms(2) by (simp add: kept_def)
qed (simp_all add: kept_def)

lemma kept_bind:
  fixes m :: "'a prog"
  assumes "ensures m w (kept G S w0)"
    and "\<And>a w1. holds G S w0 w1 \<Longrightarrow> ensures (f a) w1 (kept G S w0)"
  shows "ensures (bind m f) w (kept G S w0)"
  using assms(1)
proof (rule ensures_bind)
  fix a :: 'a and w1 assume "kept G S w0 (Val a) w1"
  then show "ensures (f a) w1 (kept G S w0)" using assms(2) by (simp add: kept_def)
qed (simp_all add: kept_def)

lemma kept_weaken:
  "ensures m w (kept G S w0) \<Longrightarrow> (\<And>e d. S e d \<Longrightarrow> S' e d) \<Longrightarrow> ensures m w (kept G S' w0)"
  by (erule ensures_mono) (auto simp: kept_def intro: holds_weaken)

lemma kept_holds: "ensures m w (kept G S w0) \<Longrightarrow> ensures m w (\<lambda>_. holds G S w0)"
  by (erule ensures_mono) (simp add: kept_def)

text \<open>A condition that does not look at the disk survives whatever is done to the disk.\<close>

definition diskFree :: "((string \<Rightarrow> string option) \<Rightarrow> disk \<Rightarrow> bool) \<Rightarrow> bool" where
  "diskFree S = (\<forall>e d d'. S e d \<longrightarrow> S e d')"

lemma diskFree_True: "diskFree (\<lambda>_ _. True)"
  by (simp add: diskFree_def)

lemma free_exec:
  "G (Exec c) \<Longrightarrow> diskFree S \<Longrightarrow> holds G S w0 w \<Longrightarrow> ensures (exec sh c) w (kept G S w0)"
  by (rule kept_exec) (auto simp: diskFree_def)

lemma free_mkdirP:
  "G (MkdirP p) \<Longrightarrow> diskFree S \<Longrightarrow> holds G S w0 w \<Longrightarrow> ensures (mkdirP p) w (kept G S w0)"
  by (rule kept_mkdirP) (auto simp: diskFree_def)

lemma free_rmRF:
  "G (RmRF p) \<Longrightarrow> diskFree S \<Longrightarrow> holds G S w0 w \<Longrightarrow> ensures (rmRF p) w (kept G S w0)"
  by (rule kept_rmRF) (auto simp: diskFree_def)

lemma free_writeFileSync:
  "G (WriteFile p c) \<Longrightarrow> diskFree S \<Longrightarrow> holds G S w0 w
   \<Longrightarrow> ensures (writeFileSync p c) w (kept G S w0)"
  by (rule kept_writeFileSync) (auto simp: diskFree_def)

subsection \<open>The statements after the license markers\<close>

lemma installPlatform_kept:
  assumes "holds G S w0 w"
    and "G (Log ''Installing latest build tools, platform tools, and platform.'')"
    and "G (Exec (sdkmanagerInstall
                   (sq @ ''build-tools;'' @ BUILD_TOOLS_VERSION @ sq @ '' platform-tools '' @ sq
                    @ ''platforms;android-'' @ showInt apiLevel @ sq)))"
    and "diskFree S"
  shows "ensures (installPlatform sh apiLevel) w (kept G S w0)"
  unfolding installPlatform_def
  by (intro kept_block_Cons kept_block_Nil kept_consoleLog free_exec assms | assumption)+

lemma installEmulator_kept:
  assumes "holds G S w0 w" and "diskFree S"
    and "truthy emulatorBuild \<Longrightarrow> G (Log (''Installing emulator build '' @ interp emulatorBuild @ ''.''))"
    and "truthy emulatorBuild \<Longrightarrow>
         G (Exec (''curl -fo emulator.zip '' @ emulatorArchiveUrl (isOnMac w) (interp emulatorBuild)))"
    and "truthy emulatorBuild \<Longrightarrow> G (RmRF (androidHome w @ ''/emulator''))"
    and "truthy emulatorBuild \<Longrightarrow> G (Exec (''unzip -q emulator.zip -d '' @ androidHome w))"
    and "truthy emulatorBuild \<Longrightarrow> G (RmRF ''emulator.zip'')"
    and "\<not> truthy emulatorBuild \<Longrightarrow> G (Log ''Installing latest emulator.'')"
    and "\<not> truthy emulatorBuild \<Longrightarrow> G (Exec (sdkmanagerInstall ''emulator''))"
  shows "ensures (installEmulator sh emulatorBuild) w (kept G S w0)"
proof (cases "truthy emulatorBuild")
  case True
  show ?thesis
    unfolding installEmulator_def
    apply (rule ensures_reading)
    apply (simp only: True if_True)
    apply (intro kept_block_Cons kept_block_Nil kept_consoleLog free_exec free_rmRF
        assms(1,2) assms(3-7)[OF True] | assumption)+
    done
next
  case False
  show ?thesis
    unfolding installEmulator_def
    apply (rule ensures_reading)
    apply (simp only: False if_False)
    apply (intro kept_block_Cons kept_block_Nil kept_consoleLog free_exec
        assms(1,2) assms(8,9)[OF False] | assumption)+
    done
qed

lemma installSystemImage_kept:
  assumes "holds G S w0 w" and "diskFree S"
    and "G (Log ''Installing system images.'')"
    and "G (Exec (sdkmanagerInstall
                   (sq @ ''system-images;android-'' @ showInt apiLevel @ '';'' @ target @ '';'' @ arch @ sq)))"
  shows "ensures (installSystemImage sh apiLevel target arch) w (kept G S w0)"
  unfolding installSystemImage_def
  by (intro kept_block_Cons kept_block_Nil kept_consoleLog free_exec assms | assumption)+

lemma installNdk_kept:
  assumes "holds G S w0 w" and "diskFree S"
    and "truthy ndkVersion \<Longrightarrow> G (Log (''Installing NDK '' @ interp ndkVersion @ ''.''))"
    and "truthy ndkVersion \<Longrightarrow> G (Exec (sdkmanagerInstall (sq @ ''ndk;'' @ interp ndkVersion @ sq)))"
  shows "ensures (installNdk sh ndkVersion) w (kept G S w0)"
  unfolding installNdk_def
  apply (rule kept_onlyIf[OF _ assms(1)])
  apply (intro kept_block_Cons kept_block_Nil kept_consoleLog free_exec assms | assumption)+
  done

lemma installCmake_kept:
  assumes "holds G S w0 w" and "diskFree S"
    and "truthy cmakeVersion \<Longrightarrow> G (Log (''Installing CMake '' @ interp cmakeVersion @ ''.''))"
    and "truthy cmakeVersion \<Longrightarrow> G (Exec (sdkmanagerInstall (sq @ ''cmake;'' @ interp cmakeVersion @ sq)))"
  shows "ensures (installCmake sh cmakeVersion) w (kept G S w0)"
  unfolding installCmake_def
  apply (rule kept_onlyIf[OF _ assms(1)])
  apply (intro kept_block_Cons kept_block_Nil kept_consoleLog free_exec assms | assumption)+
  done

subsection \<open>The license markers\<close>

lemma writeLicenseMarkers_kept:
  assumes "holds G S w0 w" and "diskFree S"
    and "\<not> isOnMac w0 \<Longrightarrow> G (WriteFile (sdkPreviewLicensePath (androidHome w)) sdkPreviewLicense)"
    and "apiLevel = 30 \<Longrightarrow> G (WriteFile (sdkArmDbtLicensePath (androidHome w)) sdkArmDbtLicense)"
  shows "ensures (writeLicenseMarkers apiLevel) w (kept G S w0)"
  unfolding writeLicenseMarkers_def
  apply (rule ensures_reading)
  apply (simp only: Let_def)
  apply (rule kept_block_Cons)
   apply (rule ensures_reading)
   apply (rule kept_onlyIf[OF _ assms(1)])
   apply (rule free_writeFileSync[OF _ assms(2,1)])
   apply (rule assms(3))
  using assms(1) apply (simp add: holds_def sameHost_def isOnMac_def)
  apply (rule kept_block_Cons)
   apply (rule ensures_reading)
   apply (rule kept_onlyIf)
    apply (rule free_writeFileSync[OF _ assms(2)])
     apply (rule assms(4))
     apply simp
    apply assumption
   apply assumption
  apply (rule kept_block_Nil)
  apply assumption
  done

subsection \<open>The command-line tools\<close>

lemma installCmdlineTools_present:
  "existsSync (disk w) (cmdlineToolsPathOf (androidHome w)) \<Longrightarrow> installCmdlineTools sh w = (Val (), w)"
  by (simp add: installCmdlineTools_def reading_def onlyIf_def ret_def Let_def)

lemma installCmdlineTools_kept:
  assumes "holds G S w0 w"
    and "G (Log ''Installing new cmdline-tools.'')"
    and "G (MkdirP (androidHome w @ ''/cmdline-tools''))"
    and "G (Exec (''curl -fo commandlinetools.zip '' @ cmdlineToolsUrl (isOnMac w)))"
    and "G (Exec (''unzip -q commandlinetools.zip -d '' @ cmdlineToolsPathOf (androidHome w)))"
    and "G (RmRF ''commandlinetools.zip'')"
    and "G (AddPath (cmdlineToolsPathOf (androidHome w) @ ''/tools:'' @ cmdlineToolsPathOf (androidHome w)
                     @ ''/tools/bin:'' @ androidHome w @ ''/platform-tools''))"
    and "\<And>e d. S e d \<Longrightarrow>
           S e (\<lambda>q. if q \<in> set (ancestors (androidHome w @ ''/cmdline-tools'') @ [androidHome w @ ''/cmdline-tools''])
                     then Some Dir else d q)"
    and "\<And>e d. S e d \<Longrightarrow> S e (snd (sh (''curl -fo commandlinetools.zip '' @ cmdlineToolsUrl (isOnMac w)) e d))"
    and "\<And>e d. S e d \<Longrightarrow>
           S e (snd (sh (''unzip -q commandlinetools.zip -d '' @ cmdlineToolsPathOf (androidHome w)) e d))"
    and "\<And>e d. S e d \<Longrightarrow>
           S e (\<lambda>q. if q = ''commandlinetools.zip'' \<or> startsWith q (''commandlinetools.zip'' @ ''/'')
                     then None else d q)"
    and "\<And>e d v. S e d \<Longrightarrow> S (e(''PATH'' := Some v)) d"
  shows "ensures (installCmdlineTools sh) w (kept G S w0)"
  unfolding installCmdlineTools_def
  apply (rule ensures_reading)
  apply (simp only: Let_def)
  apply (rule kept_onlyIf[OF _ assms(1)])
  apply (rule kept_block_Cons)
   apply (rule kept_consoleLog[OF assms(2,1)])
  apply (rule kept_block_Cons)
   apply (rule kept_mkdirP)
     apply (rule assms(3))
    apply (erule assms(8))
   apply assumption
  apply (rule kept_block_Cons)
   apply (rule kept_exec)
     apply (rule assms(4))
    apply (erule assms(9))
   apply assumption
  apply (rule kept_block_Cons)
   apply (rule kept_exec)
     apply (rule assms(5))
    apply (erule assms(10))
   apply assumption
  apply (rule kept_block_Cons)
   apply (rule kept_rmRF)
     apply (rule assms(6))
    apply (erule assms(11))
   apply assumption
  apply (rule kept_block_Cons)
   apply (rule kept_addPath)
     apply (rule assms(7))
    apply (erule assms(12))
   apply assumption
  apply (rule kept_block_Nil)
  apply assumption
  done

subsection \<open>Ownership\<close>

lemma normalizeOwnership_kept:
  assumes "holds G S w0 w"
    and "\<not> isOnMac w \<Longrightarrow> inputs w ''fresh-sdk-installation'' = [] \<Longrightarrow> G (Exec (chownCommand (androidHome w)))"
    and "\<And>e d. S e d \<Longrightarrow> S e (snd (sh (chownCommand (androidHome w)) e d))"
  shows "ensures (normalizeOwnership sh) w (kept G S w0)"
  unfolding normalizeOwnership_def
  apply (rule ensures_reading)
  apply (simp only: Let_def)
  apply (rule kept_onlyIf[OF _ assms(1)])
  apply (rule kept_exec[OF _ _ assms(1)])
   apply (rule assms(2))
    apply simp
   apply simp
  apply (erule assms(3))
  done

subsection \<open>The base SDK and the licenses\<close>

text \<open>The same, for a function of result \<^verbatim>\<open>boolean\<close> that can only answer \<^verbatim>\<open>true\<close>.\<close>

definition keptTrue ::
  "(event \<Rightarrow> bool) \<Rightarrow> ((string \<Rightarrow> string option) \<Rightarrow> disk \<Rightarrow> bool) \<Rightarrow> world
     \<Rightarrow> bool outcome \<Rightarrow> world \<Rightarrow> bool" where
  "keptTrue G S w0 r w = (holds G S w0 w \<and> r \<noteq> Returned \<and> r \<noteq> Val False)"

lemma keptTrue_after:
  fixes m :: "unit prog"
  assumes "ensures m w (kept G S w0)"
  shows "ensures (bind m (\<lambda>_. ret True)) w (keptTrue G S w0)"
  using assms
proof (rule ensures_bind)
  fix a :: unit and w1 assume "kept G S w0 (Val a) w1"
  then show "ensures (ret True) w1 (keptTrue G S w0)"
    by (simp add: ensures_def ret_def kept_def keptTrue_def)
qed (simp_all add: kept_def keptTrue_def)

lemma installBaseSdk_kept:
  assumes "holds G (\<lambda>_ _. True) w0 w"
    and "G (Log (''Installing Android SDK on '' @ androidHome w))"
    and "G (ExportVariable ''ANDROID_SDK_HOME'' (sdkHomeOf (androidHome w)))"
    and "\<And>t. G (Exec (backupCommand (sdkHomeOf (androidHome w)) t))"
    and "G (Exec (''curl -L '' @ baseSdkUrl (isOnMac w) @ '' -o '' @ androidTmpPath @ '' -s''))"
    and "G (Exec (''unzip -q '' @ androidTmpPath @ '' -d '' @ androidHome w))"
    and "G (Exec (''rm '' @ androidTmpPath))"
    and "G (Exec (''mkdir -p '' @ sdkHomeOf (androidHome w)))"
    and "\<And>v. G (ExportVariable ''PATH'' v)"
  shows "ensures (installBaseSdk sh) w (keptTrue G (\<lambda>_ _. True) w0)"
  unfolding installBaseSdk_def
  apply (rule ensures_reading)
  apply (simp only: Let_def)
  apply (rule keptTrue_after)
  apply (intro kept_block_Cons kept_block_Nil kept_consoleLog kept_exportVariable ensures_reading
      kept_onlyIf free_exec diskFree_True assms | assumption | (simp; fail))+
  done

lemma acceptLicenses_kept:
  assumes "holds G (\<lambda>_ _. True) w0 w"
    and "G (Log (''Accepting Android SDK licenses on '' @ androidHome w))"
    and "\<And>x. G (Exec (''mkdir -p '' @ x))"
    and "\<And>x. G (Exec (''touch '' @ x @ ''/repositories.cfg''))"
    and "G (Exec (''sh -c '' @ bs @ dq @ ''yes '' @ sq @ ''y'' @ sq @ '' | '' @ androidHome w
                  @ ''/tools/bin/sdkmanager --licenses > /dev/null'' @ dq))"
  shows "ensures (acceptLicenses sh) w (keptTrue G (\<lambda>_ _. True) w0)"
  unfolding acceptLicenses_def
  apply (rule ensures_reading)
  apply (simp only: Let_def)
  apply (rule keptTrue_after)
  apply (intro kept_block_Cons kept_block_Nil kept_consoleLog ensures_reading
      free_exec diskFree_True assms | assumption)+
  done

lemma requireAndroidHome_truthy:
  "truthy (env w ''ANDROID_HOME'') \<Longrightarrow> requireAndroidHome w = (Val (), w)"
  by (simp add: requireAndroidHome_def reading_def onlyIf_def ret_def)

lemma requireAndroidHome_falsy:
  "\<not> truthy (env w ''ANDROID_HOME'') \<Longrightarrow>
   requireAndroidHome w =
     (Returned, emit (SetFailed (''ANDROID_HOME is a required environment variable and is not set.'' @ nl
                                  @ ''Please double check your host settings.'')) w)"
  by (simp add: requireAndroidHome_def reading_def onlyIf_def bind_def setFailed_def returnEarly_def)

lemma requireAndroidHome_holds:
  assumes "holds G S w0 w"
    and "G (SetFailed (''ANDROID_HOME is a required environment variable and is not set.'' @ nl
                       @ ''Please double check your host settings.''))"
  shows "ensures requireAndroidHome w (\<lambda>_. holds G S w0)"
proof (cases "truthy (env w ''ANDROID_HOME'')")
  case True
  then show ?thesis using assms(1) by (simp add: ensures_def requireAndroidHome_truthy)
next
  case False
  then show ?thesis
    using holds_emit[OF assms] by (simp add: ensures_def requireAndroidHome_falsy)
qed

lemma ensureBaseSdk_warm:
  "existsSync (disk w) (androidHome w) \<Longrightarrow>
   ensureBaseSdk sh w =
     (Val (), emit (Log ''Using previous installation of base Android SDK, found on ${process.env.ANDROID_HOME}'') w)"
  by (simp add: ensureBaseSdk_def reading_def consoleLog_def)

lemma ensureBaseSdk_kept:
  assumes "holds G (\<lambda>_ _. True) w0 w"
    and "existsSync (disk w) (androidHome w) \<Longrightarrow>
         G (Log ''Using previous installation of base Android SDK, found on ${process.env.ANDROID_HOME}'')"
    and "G (Log (''Installing Android SDK on '' @ androidHome w))"
    and "G (ExportVariable ''ANDROID_SDK_HOME'' (sdkHomeOf (androidHome w)))"
    and "\<And>t. G (Exec (backupCommand (sdkHomeOf (androidHome w)) t))"
    and "G (Exec (''curl -L '' @ baseSdkUrl (isOnMac w) @ '' -o '' @ androidTmpPath @ '' -s''))"
    and "G (Exec (''unzip -q '' @ androidTmpPath @ '' -d '' @ androidHome w))"
    and "G (Exec (''rm '' @ androidTmpPath))"
    and "\<And>v. G (ExportVariable ''PATH'' v)"
    and "G (Log (''Accepting Android SDK licenses on '' @ androidHome w))"
    and "\<And>x. G (Exec (''mkdir -p '' @ x))"
    and "\<And>x. G (Exec (''touch '' @ x @ ''/repositories.cfg''))"
    and "G (Exec (''sh -c '' @ bs @ dq @ ''yes '' @ sq @ ''y'' @ sq @ '' | '' @ androidHome w
                  @ ''/tools/bin/sdkmanager --licenses > /dev/null'' @ dq))"
  shows "ensures (ensureBaseSdk sh) w (kept G (\<lambda>_ _. True) w0)"
proof (cases "existsSync (disk w) (androidHome w)")
  case True
  then show ?thesis
    using holds_emit[OF assms(1) assms(2)[OF True]]
    by (simp add: ensures_def ensureBaseSdk_warm kept_def)
next
  case False
  have base: "ensures (installBaseSdk sh) w (keptTrue G (\<lambda>_ _. True) w0)"
    by (rule installBaseSdk_kept[where G = G, OF assms(1) assms(3) assms(4) assms(5) assms(6)
          assms(7) assms(8) assms(11) assms(9)])
  have rest: "ensures
        (bind (onlyIf (\<not> installed)
                 (block [setFailed ''Could not install base Android SDK.'', returnEarly])) (\<lambda>_.
         bind (acceptLicenses sh) (\<lambda>licenses.
               onlyIf (\<not> installed \<or> \<not> licenses)
                 (block [setFailed ''Could not accept Android SDK licenses.'', returnEarly])))) w1
        (kept G (\<lambda>_ _. True) w0)"
    if k: "keptTrue G (\<lambda>_ _. True) w0 (Val installed) w1" for installed w1
  proof -
    from k have inst: "installed" and h1: "holds G (\<lambda>_ _. True) w0 w1"
      by (simp_all add: keptTrue_def)
    from h1 assms(1) have same: "androidHome w1 = androidHome w"
      by (simp add: holds_def sameHost_def androidHome_def)
    have lic: "ensures (acceptLicenses sh) w2 (keptTrue G (\<lambda>_ _. True) w0)"
      if h2: "holds G (\<lambda>_ _. True) w0 w2" for w2
    proof -
      from h2 assms(1) have "androidHome w2 = androidHome w"
        by (simp add: holds_def sameHost_def androidHome_def)
      then show ?thesis
        using acceptLicenses_kept[where G = G, OF h2 _ assms(11) assms(12)] assms(10,13) by simp
    qed
    show ?thesis
    proof (rule kept_bind)
      show "ensures (onlyIf (\<not> installed)
                 (block [setFailed ''Could not install base Android SDK.'', returnEarly])) w1
              (kept G (\<lambda>_ _. True) w0)"
        using inst h1 by (simp add: onlyIf_def ensures_def ret_def kept_def)
    next
      fix a :: unit and w2 assume h2: "holds G (\<lambda>_ _. True) w0 w2"
      show "ensures (bind (acceptLicenses sh) (\<lambda>licenses.
               onlyIf (\<not> installed \<or> \<not> licenses)
                 (block [setFailed ''Could not accept Android SDK licenses.'', returnEarly]))) w2
              (kept G (\<lambda>_ _. True) w0)"
      proof (rule ensures_bind[OF lic[OF h2]])
        fix licenses w3 assume "keptTrue G (\<lambda>_ _. True) w0 (Val licenses) w3"
        then show "ensures (onlyIf (\<not> installed \<or> \<not> licenses)
                 (block [setFailed ''Could not accept Android SDK licenses.'', returnEarly])) w3
              (kept G (\<lambda>_ _. True) w0)"
          using inst by (simp add: onlyIf_def ensures_def ret_def kept_def keptTrue_def)
      qed (simp_all add: kept_def keptTrue_def)
    qed
  qed
  show ?thesis
    unfolding ensureBaseSdk_def
    apply (rule ensures_reading)
    apply (simp only: False if_False)
    apply (rule ensures_bind[OF base])
      apply (erule rest)
     apply (simp_all add: kept_def keptTrue_def)
    done
qed

subsection \<open>The events of a run\<close>

definition baseEvents :: "bool \<Rightarrow> string \<Rightarrow> event list" where
  "baseEvents mac h =
     [Log (''Installing Android SDK on '' @ h),
      ExportVariable ''ANDROID_SDK_HOME'' (sdkHomeOf h),
      Exec (''curl -L '' @ baseSdkUrl mac @ '' -o '' @ androidTmpPath @ '' -s''),
      Exec (''unzip -q '' @ androidTmpPath @ '' -d '' @ h),
      Exec (''rm '' @ androidTmpPath),
      Log (''Accepting Android SDK licenses on '' @ h),
      Exec (''sh -c '' @ bs @ dq @ ''yes '' @ sq @ ''y'' @ sq @ '' | '' @ h
            @ ''/tools/bin/sdkmanager --licenses > /dev/null'' @ dq)]"

definition baseEvent :: "string \<Rightarrow> event \<Rightarrow> bool" where
  "baseEvent h e =
     ((\<exists>t. e = Exec (backupCommand (sdkHomeOf h) t)) \<or> (\<exists>v. e = ExportVariable ''PATH'' v)
      \<or> (\<exists>x. e = Exec (''mkdir -p '' @ x)) \<or> (\<exists>x. e = Exec (''touch '' @ x @ ''/repositories.cfg'')))"

definition ownershipEvents :: "bool \<Rightarrow> string \<Rightarrow> string \<Rightarrow> event list" where
  "ownershipEvents mac fresh h = (if \<not> mac \<and> fresh = [] then [Exec (chownCommand h)] else [])"

definition toolsEvents :: "bool \<Rightarrow> string \<Rightarrow> event list" where
  "toolsEvents mac h =
     [Log ''Installing new cmdline-tools.'',
      MkdirP (h @ ''/cmdline-tools''),
      Exec (''curl -fo commandlinetools.zip '' @ cmdlineToolsUrl mac),
      Exec (''unzip -q commandlinetools.zip -d '' @ cmdlineToolsPathOf h),
      RmRF ''commandlinetools.zip'',
      AddPath (cmdlineToolsPathOf h @ ''/tools:'' @ cmdlineToolsPathOf h @ ''/tools/bin:'' @ h
               @ ''/platform-tools'')]"

definition markerEvents :: "bool \<Rightarrow> int \<Rightarrow> string \<Rightarrow> event list" where
  "markerEvents mac apiLevel h =
     (if \<not> mac then [WriteFile (sdkPreviewLicensePath h) sdkPreviewLicense] else [])
     @ (if apiLevel = 30 then [WriteFile (sdkArmDbtLicensePath h) sdkArmDbtLicense] else [])"

definition emulatorEvents :: "bool \<Rightarrow> string \<Rightarrow> string option \<Rightarrow> event list" where
  "emulatorEvents mac h emulatorBuild =
     (if truthy emulatorBuild
      then [Log (''Installing emulator build '' @ interp emulatorBuild @ ''.''),
            Exec (''curl -fo emulator.zip '' @ emulatorArchiveUrl mac (interp emulatorBuild)),
            RmRF (h @ ''/emulator''),
            Exec (''unzip -q emulator.zip -d '' @ h),
            RmRF ''emulator.zip'']
      else [Log ''Installing latest emulator.'', Exec (sdkmanagerInstall ''emulator'')])"

definition platformEvents :: "int \<Rightarrow> event list" where
  "platformEvents apiLevel =
     [Log ''Installing latest build tools, platform tools, and platform.'',
      Exec (sdkmanagerInstall
              (sq @ ''build-tools;'' @ BUILD_TOOLS_VERSION @ sq @ '' platform-tools '' @ sq
               @ ''platforms;android-'' @ showInt apiLevel @ sq))]"

definition finalEvents :: "int \<Rightarrow> string \<Rightarrow> string \<Rightarrow> string option \<Rightarrow> string option \<Rightarrow> event list" where
  "finalEvents apiLevel target arch ndkVersion cmakeVersion =
     [Log ''Installing system images.'',
      Exec (sdkmanagerInstall
              (sq @ ''system-images;android-'' @ showInt apiLevel @ '';'' @ target @ '';'' @ arch @ sq))]
     @ (if truthy ndkVersion
        then [Log (''Installing NDK '' @ interp ndkVersion @ ''.''),
              Exec (sdkmanagerInstall (sq @ ''ndk;'' @ interp ndkVersion @ sq))]
        else [])
     @ (if truthy cmakeVersion
        then [Log (''Installing CMake '' @ interp cmakeVersion @ ''.''),
              Exec (sdkmanagerInstall (sq @ ''cmake;'' @ interp cmakeVersion @ sq))]
        else [])"

definition lateEvents ::
  "int \<Rightarrow> string \<Rightarrow> string \<Rightarrow> string option \<Rightarrow> string option \<Rightarrow> string option \<Rightarrow> bool \<Rightarrow> string
     \<Rightarrow> event list" where
  "lateEvents apiLevel target arch emulatorBuild ndkVersion cmakeVersion mac h =
     platformEvents apiLevel @ emulatorEvents mac h emulatorBuild
     @ finalEvents apiLevel target arch ndkVersion cmakeVersion"

lemma sameHost_home: "sameHost w0 w \<Longrightarrow> androidHome w = androidHome w0"
  by (simp add: sameHost_def androidHome_def)

lemma sameHost_mac: "sameHost w0 w \<Longrightarrow> isOnMac w = isOnMac w0"
  by (simp add: sameHost_def isOnMac_def)

lemma late_kept:
  assumes h: "holds G S w0 w" and free: "diskFree S"
    and G: "\<And>e. e \<in> set (lateEvents apiLevel target arch emulatorBuild ndkVersion cmakeVersion
                              (isOnMac w0) (androidHome w0)) \<Longrightarrow> G e"
  shows "ensures
           (block [installPlatform sh apiLevel, installEmulator sh emulatorBuild,
                   installSystemImage sh apiLevel target arch, installNdk sh ndkVersion,
                   installCmake sh cmakeVersion]) w (kept G S w0)"
proof -
  have p5: "ensures (installPlatform sh apiLevel) w1 (kept G S w0)" if "holds G S w0 w1" for w1
    by (rule installPlatform_kept[OF that _ _ free]; rule G) (simp_all add: lateEvents_def platformEvents_def finalEvents_def)
  have p6: "ensures (installEmulator sh emulatorBuild) w1 (kept G S w0)" if "holds G S w0 w1" for w1
  proof -
    from that have "androidHome w1 = androidHome w0" "isOnMac w1 = isOnMac w0"
      by (simp_all add: holds_def sameHost_home sameHost_mac)
    then show ?thesis
      by (intro installEmulator_kept[OF that free]; intro G)
         (simp_all add: lateEvents_def emulatorEvents_def)
  qed
  have p7: "ensures (installSystemImage sh apiLevel target arch) w1 (kept G S w0)"
    if "holds G S w0 w1" for w1
    by (rule installSystemImage_kept[OF that free]; rule G) (simp_all add: lateEvents_def platformEvents_def finalEvents_def)
  have p8: "ensures (installNdk sh ndkVersion) w1 (kept G S w0)" if "holds G S w0 w1" for w1
    by (rule installNdk_kept[OF that free]; rule G) (simp_all add: lateEvents_def platformEvents_def finalEvents_def)
  have p9: "ensures (installCmake sh cmakeVersion) w1 (kept G S w0)" if "holds G S w0 w1" for w1
    by (rule installCmake_kept[OF that free]; rule G) (simp_all add: lateEvents_def platformEvents_def finalEvents_def)
  show ?thesis
    by (intro kept_block_Cons kept_block_Nil p5 p6 p7 p8 p9 h | assumption)+
qed

text \<open>Every event a run can emit, from the parameters and the state at the call.\<close>

definition mayEmit ::
  "int \<Rightarrow> string \<Rightarrow> string \<Rightarrow> string option \<Rightarrow> string option \<Rightarrow> string option \<Rightarrow> world
     \<Rightarrow> event \<Rightarrow> bool" where
  "mayEmit apiLevel target arch emulatorBuild ndkVersion cmakeVersion w e =
     (let mac = isOnMac w; h = androidHome w; warm = existsSync (disk w) (androidHome w)
      in (\<not> truthy (env w ''ANDROID_HOME'') \<and>
            e = SetFailed (''ANDROID_HOME is a required environment variable and is not set.'' @ nl
                           @ ''Please double check your host settings.''))
         \<or> (truthy (env w ''ANDROID_HOME'') \<and>
             ((warm \<and> e = Log ''Using previous installation of base Android SDK, found on ${process.env.ANDROID_HOME}'')
              \<or> (\<not> warm \<and> (e \<in> set (baseEvents mac h) \<or> baseEvent h e))
              \<or> e \<in> set (ownershipEvents mac (inputs w ''fresh-sdk-installation'') h)
              \<or> e \<in> set (toolsEvents mac h)
              \<or> e \<in> set (markerEvents mac apiLevel h)
              \<or> e \<in> set (lateEvents apiLevel target arch emulatorBuild ndkVersion cmakeVersion mac h))))"

lemma body_kept:
  assumes t: "truthy (env w ''ANDROID_HOME'')"
    and G: "\<And>e. mayEmit apiLevel target arch emulatorBuild ndkVersion cmakeVersion w e \<Longrightarrow> G e"
  shows "ensures
           (block
              [requireAndroidHome, ensureBaseSdk sh, normalizeOwnership sh, installCmdlineTools sh,
               writeLicenseMarkers apiLevel, installPlatform sh apiLevel, installEmulator sh emulatorBuild,
               installSystemImage sh apiLevel target arch, installNdk sh ndkVersion,
               installCmake sh cmakeVersion]) w (kept G (\<lambda>_ _. True) w)"
proof -
  let ?S = "\<lambda>(_ :: string \<Rightarrow> string option) (_ :: disk). True"
  have h0: "holds G ?S w w" by (simp add: holds_start)
  have p1: "ensures (ensureBaseSdk sh) w (kept G ?S w)"
  proof (cases "existsSync (disk w) (androidHome w)")
    case True
    have "G (Log ''Using previous installation of base Android SDK, found on ${process.env.ANDROID_HOME}'')"
      by (rule G) (simp add: mayEmit_def t True)
    from holds_emit[OF h0 this] True show ?thesis
      by (simp add: ensures_def ensureBaseSdk_warm kept_def)
  next
    case False
    have l: "G e" if "e \<in> set (baseEvents (isOnMac w) (androidHome w))" for e
      by (rule G) (simp add: mayEmit_def t False that)
    have b: "G e" if "baseEvent (androidHome w) e" for e
      by (rule G) (simp add: mayEmit_def t False that)
    show ?thesis
      apply (rule ensureBaseSdk_kept[where G = G, OF h0 _ l l b l l l b l b b l])
      apply (auto simp: False baseEvents_def baseEvent_def)
      done
  qed
  have p2: "ensures (normalizeOwnership sh) w1 (kept G ?S w)" if h: "holds G ?S w w1" for w1
  proof (rule normalizeOwnership_kept[OF h])
    assume a: "\<not> isOnMac w1" "inputs w1 ''fresh-sdk-installation'' = []"
    from h have "androidHome w1 = androidHome w" "isOnMac w1 = isOnMac w" "inputs w1 = inputs w"
      by (simp_all add: holds_def sameHost_def androidHome_def isOnMac_def)
    with a show "G (Exec (chownCommand (androidHome w1)))"
      by (intro G) (simp add: mayEmit_def t ownershipEvents_def)
  qed simp
  have p3: "ensures (installCmdlineTools sh) w1 (kept G ?S w)" if h: "holds G ?S w w1" for w1
  proof -
    from h have "androidHome w1 = androidHome w" "isOnMac w1 = isOnMac w"
      by (simp_all add: holds_def sameHost_home sameHost_mac)
    then show ?thesis
      by (intro installCmdlineTools_kept[OF h]; (intro G)?)
         (simp_all add: mayEmit_def t toolsEvents_def cmdlineToolsPathOf_def)
  qed
  have p4: "ensures (writeLicenseMarkers apiLevel) w1 (kept G ?S w)" if h: "holds G ?S w w1" for w1
  proof -
    from h have "androidHome w1 = androidHome w"
      by (simp add: holds_def sameHost_home)
    then show ?thesis
      by (intro writeLicenseMarkers_kept[OF h diskFree_True]; intro G)
         (simp_all add: mayEmit_def t markerEvents_def)
  qed
  have late: "ensures
           (block [installPlatform sh apiLevel, installEmulator sh emulatorBuild,
                   installSystemImage sh apiLevel target arch, installNdk sh ndkVersion,
                   installCmake sh cmakeVersion]) w1 (kept G ?S w)" if h: "holds G ?S w w1" for w1
    by (rule late_kept[OF h diskFree_True], rule G) (simp add: mayEmit_def t)
  show ?thesis
    apply (rule ensures_block_Val[where m = requireAndroidHome, OF requireAndroidHome_truthy[OF t]])
    apply (rule kept_block_Cons[OF p1])
    apply (rule kept_block_Cons[OF p2], assumption)
    apply (rule kept_block_Cons[OF p3], assumption)
    apply (rule kept_block_Cons[OF p4], assumption)
    apply (erule late)
    done
qed

lemma run_holds:
  assumes G: "\<And>e. mayEmit apiLevel target arch emulatorBuild ndkVersion cmakeVersion w e \<Longrightarrow> G e"
  shows "ensures (installAndroidSdk sh apiLevel target arch emulatorBuild ndkVersion cmakeVersion) w
           (\<lambda>_. holds G (\<lambda>_ _. True) w)"
proof (cases "truthy (env w ''ANDROID_HOME'')")
  case True
  show ?thesis
    unfolding installAndroidSdk_def
    by (rule ensures_asyncVoid, rule kept_holds, rule body_kept[OF True G])
next
  case False
  have "G (SetFailed (''ANDROID_HOME is a required environment variable and is not set.'' @ nl
                           @ ''Please double check your host settings.''))"
    by (rule G) (simp add: mayEmit_def False)
  then have "holds G (\<lambda>_ _. True) w
     (emit (SetFailed (''ANDROID_HOME is a required environment variable and is not set.'' @ nl
                           @ ''Please double check your host settings.'')) w)"
    by (intro holds_emit holds_start) simp_all
  then show ?thesis
    unfolding installAndroidSdk_def
    by (simp add: ensures_def asyncVoid_def block_Cons_Returned[where m = requireAndroidHome and w = w, OF requireAndroidHome_falsy[OF False]]
        del: block.simps)
qed

subsection \<open>Taking a run apart\<close>

lemma startsWith_Nil [simp]: "startsWith s []"
  by (simp add: startsWith_def)

lemma startsWith_Cons_Cons [simp]: "startsWith (x # xs) (y # ys) = (x = y \<and> startsWith xs ys)"
  by (auto simp: startsWith_def)

lemma startsWith_Nil_Cons [simp]: "\<not> startsWith [] (y # ys)"
  by (simp add: startsWith_def)

lemma asyncVoid_run:
  assumes "asyncVoid m w = (r, w')"
  obtains rb where "m w = (rb, w')" and "r = (case rb of Returned \<Rightarrow> Val () | _ \<Rightarrow> rb)"
  using assms by (cases "m w"; cases "fst (m w)") (auto simp: asyncVoid_def)

lemma block_split:
  assumes "block (pre @ post) w = (r, w')"
  obtains (went) w1 where "block pre w = (Val (), w1)" and "block post w1 = (r, w')"
        | (stopped) "block pre w = (r, w')" and "r \<noteq> Val ()"
  using assms
  by (cases "block pre w"; cases "fst (block pre w)") (auto simp: block_append bind_def)

lemma block_one:
  assumes "block (m # post) w = (r, w')"
  obtains (went) w1 where "m w = (Val (), w1)" and "block post w1 = (r, w')"
        | (stopped) "m w = (r, w')" and "r \<noteq> Val ()"
  using assms
  by (cases "m w"; cases "fst (m w)") (auto simp: bind_def)

lemma kept_block_all:
  assumes "\<And>m w1. m \<in> set ms \<Longrightarrow> holds G S w0 w1 \<Longrightarrow> ensures m w1 (kept G S w0)"
    and "holds G S w0 w"
  shows "ensures (block ms) w (kept G S w0)"
  using assms
proof (induction ms arbitrary: w)
  case Nil
  then show ?case by (simp add: kept_block_Nil del: block.simps)
next
  case (Cons m ms)
  show ?case
  proof (rule kept_block_Cons)
    show "ensures m w (kept G S w0)" using Cons.prems by simp
  next
    fix w1 assume "holds G S w0 w1"
    then show "ensures (block ms) w1 (kept G S w0)" using Cons.IH Cons.prems(1) by simp
  qed
qed

text \<open>\<open>later w0 w\<close>: the same host, and the trace of \<open>w0\<close> with more events after it.\<close>

abbreviation later :: "world \<Rightarrow> world \<Rightarrow> bool" where
  "later \<equiv> holds (\<lambda>_. True) (\<lambda>_ _. True)"

lemma later_trace: "later w0 w \<Longrightarrow> \<exists>evs. trace w = trace w0 @ evs"
  by (auto simp: holds_def)

lemma later_refl: "later w w"
  by (simp add: holds_start)

lemma statement_later:
  assumes "m \<in> set [ensureBaseSdk sh, normalizeOwnership sh, installCmdlineTools sh,
                     writeLicenseMarkers apiLevel, installPlatform sh apiLevel,
                     installEmulator sh emulatorBuild, installSystemImage sh apiLevel target arch,
                     installNdk sh ndkVersion, installCmake sh cmakeVersion]"
    and h: "later w0 w"
  shows "ensures m w (kept (\<lambda>_. True) (\<lambda>_ _. True) w0)"
proof -
  note free = diskFree_True
  from assms(1) consider
      "m = ensureBaseSdk sh" | "m = normalizeOwnership sh" | "m = installCmdlineTools sh"
    | "m = writeLicenseMarkers apiLevel" | "m = installPlatform sh apiLevel"
    | "m = installEmulator sh emulatorBuild" | "m = installSystemImage sh apiLevel target arch"
    | "m = installNdk sh ndkVersion" | "m = installCmake sh cmakeVersion"
    by auto
  then show ?thesis
  proof cases
    case 1 then show ?thesis by (simp only:) (rule ensureBaseSdk_kept[OF h]; simp)
  next
    case 2 then show ?thesis by (simp only:) (rule normalizeOwnership_kept[OF h]; simp)
  next
    case 3 then show ?thesis by (simp only:) (rule installCmdlineTools_kept[OF h]; simp)
  next
    case 4 then show ?thesis by (simp only:) (rule writeLicenseMarkers_kept[OF h free]; simp)
  next
    case 5 then show ?thesis by (simp only:) (rule installPlatform_kept[OF h _ _ free]; simp)
  next
    case 6 then show ?thesis by (simp only:) (rule installEmulator_kept[OF h free]; simp)
  next
    case 7 then show ?thesis by (simp only:) (rule installSystemImage_kept[OF h free]; simp)
  next
    case 8 then show ?thesis by (simp only:) (rule installNdk_kept[OF h free]; simp)
  next
    case 9 then show ?thesis by (simp only:) (rule installCmake_kept[OF h free]; simp)
  qed
qed

lemma statement_run:
  assumes "m \<in> set [ensureBaseSdk sh, normalizeOwnership sh, installCmdlineTools sh,
                     writeLicenseMarkers apiLevel, installPlatform sh apiLevel,
                     installEmulator sh emulatorBuild, installSystemImage sh apiLevel target arch,
                     installNdk sh ndkVersion, installCmake sh cmakeVersion]"
    and "later w0 w" and "m w = (r, w1)"
  shows "later w0 w1 \<and> r \<noteq> Returned"
proof -
  have "ensures m w (kept (\<lambda>_. True) (\<lambda>_ _. True) w0)"
    using assms(1,2) by (rule statement_later)
  then show ?thesis
    using assms(3) by (simp add: ensures_def kept_def)
qed

text \<open>Any stretch of the statements after the first: the host stays, the trace grows, no early return.\<close>

lemma statements_later:
  assumes "set ms \<subseteq> set [ensureBaseSdk sh, normalizeOwnership sh, installCmdlineTools sh,
                     writeLicenseMarkers apiLevel, installPlatform sh apiLevel,
                     installEmulator sh emulatorBuild, installSystemImage sh apiLevel target arch,
                     installNdk sh ndkVersion, installCmake sh cmakeVersion]"
    and "later w0 w" and "block ms w = (r, w')"
  shows "later w0 w' \<and> r \<noteq> Returned"
proof -
  have "ensures (block ms) w (kept (\<lambda>_. True) (\<lambda>_ _. True) w0)"
  proof (rule kept_block_all[OF _ assms(2)])
    fix m w1 assume "m \<in> set ms" and h: "later w0 w1"
    with assms(1) have "m \<in> set [ensureBaseSdk sh, normalizeOwnership sh, installCmdlineTools sh,
                     writeLicenseMarkers apiLevel, installPlatform sh apiLevel,
                     installEmulator sh emulatorBuild, installSystemImage sh apiLevel target arch,
                     installNdk sh ndkVersion, installCmake sh cmakeVersion]"
      by blast
    then show "ensures m w1 (kept (\<lambda>_. True) (\<lambda>_ _. True) w0)"
      using h by (rule statement_later)
  qed
  from ensuresD[OF this assms(3)] show ?thesis by (simp add: kept_def)
qed

text \<open>With \<^verbatim>\<open>ANDROID_HOME\<close> set, a run is the statements after the first, and never an early return.\<close>

lemma run_body:
  assumes t: "truthy (env w ''ANDROID_HOME'')"
    and run: "installAndroidSdk sh apiLevel target arch emulatorBuild ndkVersion cmakeVersion w = (r, w')"
  shows "block [ensureBaseSdk sh, normalizeOwnership sh, installCmdlineTools sh,
                writeLicenseMarkers apiLevel, installPlatform sh apiLevel,
                installEmulator sh emulatorBuild, installSystemImage sh apiLevel target arch,
                installNdk sh ndkVersion, installCmake sh cmakeVersion] w = (r, w')"
proof -
  from run obtain rb where
    body: "block [requireAndroidHome, ensureBaseSdk sh, normalizeOwnership sh, installCmdlineTools sh,
                writeLicenseMarkers apiLevel, installPlatform sh apiLevel,
                installEmulator sh emulatorBuild, installSystemImage sh apiLevel target arch,
                installNdk sh ndkVersion, installCmake sh cmakeVersion] w = (rb, w')"
    and r: "r = (case rb of Returned \<Rightarrow> Val () | _ \<Rightarrow> rb)"
    unfolding installAndroidSdk_def by (rule asyncVoid_run)
  from body have rest: "block [ensureBaseSdk sh, normalizeOwnership sh, installCmdlineTools sh,
                writeLicenseMarkers apiLevel, installPlatform sh apiLevel,
                installEmulator sh emulatorBuild, installSystemImage sh apiLevel target arch,
                installNdk sh ndkVersion, installCmake sh cmakeVersion] w = (rb, w')"
    by (simp only: block_Cons_Val[where m = requireAndroidHome and w = w, OF requireAndroidHome_truthy[OF t]])
  have "later w w' \<and> rb \<noteq> Returned"
    by (rule statements_later[where sh = sh and apiLevel = apiLevel and emulatorBuild = emulatorBuild
          and target = target and arch = arch and ndkVersion = ndkVersion
          and cmakeVersion = cmakeVersion, OF _ later_refl rest]) simp
  then have "rb \<noteq> Returned" by simp
  with r have "r = rb" by (cases rb) simp_all
  with rest show ?thesis by simp
qed

text \<open>The events of a run, class by class.\<close>

lemma run_holds_classes:
  assumes "\<not> truthy (env w ''ANDROID_HOME'') \<Longrightarrow>
           G (SetFailed (''ANDROID_HOME is a required environment variable and is not set.'' @ nl
                         @ ''Please double check your host settings.''))"
    and "existsSync (disk w) (androidHome w) \<Longrightarrow>
         G (Log ''Using previous installation of base Android SDK, found on ${process.env.ANDROID_HOME}'')"
    and "\<not> existsSync (disk w) (androidHome w) \<Longrightarrow> list_all G (baseEvents (isOnMac w) (androidHome w))"
    and "\<And>e. \<not> existsSync (disk w) (androidHome w) \<Longrightarrow> baseEvent (androidHome w) e \<Longrightarrow> G e"
    and "list_all G (ownershipEvents (isOnMac w) (inputs w ''fresh-sdk-installation'') (androidHome w))"
    and "list_all G (toolsEvents (isOnMac w) (androidHome w))"
    and "list_all G (markerEvents (isOnMac w) apiLevel (androidHome w))"
    and "list_all G (lateEvents apiLevel target arch emulatorBuild ndkVersion cmakeVersion
                       (isOnMac w) (androidHome w))"
    and run: "installAndroidSdk sh apiLevel target arch emulatorBuild ndkVersion cmakeVersion w = (r, w')"
  shows "\<exists>evs. trace w' = trace w @ evs \<and> list_all G evs"
proof -
  have "G e" if "mayEmit apiLevel target arch emulatorBuild ndkVersion cmakeVersion w e" for e
    using that assms(1-8) unfolding mayEmit_def Let_def list_all_iff by blast
  then have "ensures (installAndroidSdk sh apiLevel target arch emulatorBuild ndkVersion cmakeVersion) w
          (\<lambda>_. holds G (\<lambda>_ _. True) w)"
    by (rule run_holds)
  from ensuresD[OF this run] show ?thesis
    by (simp add: holds_def)
qed

lemma run_falsy:
  assumes "\<not> truthy (env w ''ANDROID_HOME'')"
  shows "installAndroidSdk sh apiLevel target arch emulatorBuild ndkVersion cmakeVersion w =
           (Val (),
            emit (SetFailed (''ANDROID_HOME is a required environment variable and is not set.'' @ nl
                             @ ''Please double check your host settings.'')) w)"
  unfolding installAndroidSdk_def
  by (simp add: asyncVoid_def
      block_Cons_Returned[where m = requireAndroidHome and w = w, OF requireAndroidHome_falsy[OF assms]]
      del: block.simps)

subsection \<open>Statements that emit one event\<close>

text \<open>
  \<open>emitsOne m e\<close>: whatever the outcome, \<open>m\<close> leaves the host and the environment the
  same, adds the one event \<open>e\<close> to the trace, and does not leave the function.
\<close>

definition emitsOne :: "unit prog \<Rightarrow> event \<Rightarrow> bool" where
  "emitsOne m e =
     (\<forall>w. sameHost w (snd (m w)) \<and> env (snd (m w)) = env w
          \<and> trace (snd (m w)) = trace w @ [e] \<and> fst (m w) \<noteq> Returned)"

lemma emitsOne_consoleLog: "emitsOne (consoleLog msg) (Log msg)"
  by (simp add: emitsOne_def consoleLog_def emit_def sameHost_def)

lemma emitsOne_exec: "emitsOne (exec sh c) (Exec c)"
  unfolding emitsOne_def
proof
  fix w
  show "sameHost w (snd (exec sh c w)) \<and> env (snd (exec sh c w)) = env w
        \<and> trace (snd (exec sh c w)) = trace w @ [Exec c] \<and> fst (exec sh c w) \<noteq> Returned"
    by (cases "sh c (env w) (disk w)") (simp add: exec_def emit_def sameHost_def Let_def)
qed

lemma emitsOne_rmRF: "emitsOne (rmRF p) (RmRF p)"
  by (simp add: emitsOne_def rmRF_def emit_def sameHost_def)

lemma sameHost_refl: "sameHost w w"
  by (simp add: sameHost_def)

lemma sameHost_trans: "sameHost a b \<Longrightarrow> sameHost b c \<Longrightarrow> sameHost a c"
  by (simp add: sameHost_def)

text \<open>
  A block of such statements emits their events in order, up to the statement that throws;
  it ends normally only with all of them emitted.
\<close>

lemma block_emitsOne:
  assumes "list_all2 emitsOne ms es" and "block ms w = (r, w')"
  shows "sameHost w w' \<and> env w' = env w \<and> r \<noteq> Returned
         \<and> (\<exists>k\<le>length es. trace w' = trace w @ take k es \<and> (es \<noteq> [] \<longrightarrow> 0 < k)
               \<and> (r = Val () \<longrightarrow> k = length es))"
  using assms
proof (induction ms es arbitrary: w rule: list_all2_induct)
  case Nil
  then show ?case by (auto simp: ret_def sameHost_refl)
next
  case (Cons m ms e es)
  from Cons.hyps(1) have one: "sameHost w (snd (m w))" "trace (snd (m w)) = trace w @ [e]"
    "fst (m w) \<noteq> Returned" "env (snd (m w)) = env w"
    by (simp_all add: emitsOne_def)
  from Cons.prems show ?case
  proof (cases rule: block_one)
    case (went w1)
    from Cons.IH[OF went(2)] obtain k where
      k: "sameHost w1 w'" "r \<noteq> Returned" "k \<le> length es" "trace w' = trace w1 @ take k es"
         "r = Val () \<longrightarrow> k = length es" "env w' = env w1"
      by blast
    from went(1) one have "sameHost w w1" "trace w1 = trace w @ [e]" "env w1 = env w" by simp_all
    with k show ?thesis
      by (intro conjI exI[of _ "Suc k"]) (auto intro: sameHost_trans)
  next
    case stopped
    with one show ?thesis
      by (intro conjI exI[of _ "Suc 0"]) auto
  qed
qed

lemma take_split:
  assumes "take k xs = b1 @ x # b2"
  shows "\<exists>c. xs = b1 @ x # c"
proof -
  have "xs = take k xs @ drop k xs" by simp
  with assms have "xs = b1 @ x # (b2 @ drop k xs)" by simp
  then show ?thesis ..
qed

text \<open>An event that only the middle stretch of a trace holds is found in that stretch.\<close>

lemma split_in_middle:
  assumes eq: "a @ b @ c = pre @ x # post" and a: "x \<notin> set a" and c: "x \<notin> set c"
  obtains b1 b2 where "b = b1 @ x # b2" and "pre = a @ b1"
proof -
  from eq obtain us where
    "(a = pre @ us \<and> us @ b @ c = x # post) \<or> (a @ us = pre \<and> b @ c = us @ x # post)"
    by (auto simp: append_eq_append_conv2)
  then have "\<exists>t. pre = a @ t \<and> b @ c = t @ x # post"
  proof
    assume l: "a = pre @ us \<and> us @ b @ c = x # post"
    show ?thesis
    proof (cases us)
      case Nil
      with l show ?thesis by auto
    next
      case (Cons u us')
      with l a show ?thesis by auto
    qed
  next
    assume "a @ us = pre \<and> b @ c = us @ x # post"
    then show ?thesis by auto
  qed
  then obtain t where t: "pre = a @ t" "b @ c = t @ x # post" by blast
  from t(2) obtain vs where
    "(b = t @ vs \<and> vs @ c = x # post) \<or> (b @ vs = t \<and> c = vs @ x # post)"
    by (auto simp: append_eq_append_conv2)
  then have "\<exists>b2. b = t @ x # b2"
  proof
    assume l: "b = t @ vs \<and> vs @ c = x # post"
    show ?thesis
    proof (cases vs)
      case Nil
      with l c show ?thesis by auto
    next
      case (Cons v vs')
      with l show ?thesis by auto
    qed
  next
    assume "b @ vs = t \<and> c = vs @ x # post"
    with c show ?thesis by auto
  qed
  with t(1) that show thesis by blast
qed

subsection \<open>The emulator\<close>

lemma installEmulator_run:
  assumes "installEmulator sh emulatorBuild w = (r, w')"
  shows "sameHost w w' \<and> r \<noteq> Returned
         \<and> (\<exists>k. 0 < k \<and> trace w' = trace w @ take k (emulatorEvents (isOnMac w) (androidHome w) emulatorBuild)
               \<and> (r = Val () \<longrightarrow>
                    trace w' = trace w @ emulatorEvents (isOnMac w) (androidHome w) emulatorBuild))"
proof (cases "truthy emulatorBuild")
  case True
  let ?es = "[Log (''Installing emulator build '' @ interp emulatorBuild @ ''.''),
              Exec (''curl -fo emulator.zip '' @ emulatorArchiveUrl (isOnMac w) (interp emulatorBuild)),
              RmRF (androidHome w @ ''/emulator''),
              Exec (''unzip -q emulator.zip -d '' @ androidHome w),
              RmRF ''emulator.zip'']"
  from assms True have run:
    "block [consoleLog (''Installing emulator build '' @ interp emulatorBuild @ ''.''),
            exec sh (''curl -fo emulator.zip '' @ emulatorArchiveUrl (isOnMac w) (interp emulatorBuild)),
            rmRF (androidHome w @ ''/emulator''),
            exec sh (''unzip -q emulator.zip -d '' @ androidHome w),
            rmRF ''emulator.zip''] w = (r, w')"
    by (simp add: installEmulator_def reading_def del: block.simps)
  have "list_all2 emitsOne
          [consoleLog (''Installing emulator build '' @ interp emulatorBuild @ ''.''),
            exec sh (''curl -fo emulator.zip '' @ emulatorArchiveUrl (isOnMac w) (interp emulatorBuild)),
            rmRF (androidHome w @ ''/emulator''),
            exec sh (''unzip -q emulator.zip -d '' @ androidHome w),
            rmRF ''emulator.zip''] ?es"
    by (simp add: emitsOne_consoleLog emitsOne_exec emitsOne_rmRF)
  from block_emitsOne[OF this run] True show ?thesis
    by (auto simp: emulatorEvents_def)
next
  case False
  from assms False have run:
    "block [consoleLog ''Installing latest emulator.'', exec sh (sdkmanagerInstall ''emulator'')] w
       = (r, w')"
    by (simp add: installEmulator_def reading_def del: block.simps)
  have "list_all2 emitsOne
          [consoleLog ''Installing latest emulator.'', exec sh (sdkmanagerInstall ''emulator'')]
          [Log ''Installing latest emulator.'', Exec (sdkmanagerInstall ''emulator'')]"
    by (simp add: emitsOne_consoleLog emitsOne_exec)
  from block_emitsOne[OF this run] False show ?thesis
    by (auto simp: emulatorEvents_def)
qed

subsection \<open>All the statements but the emulator's\<close>

lemma others_kept:
  assumes ms: "set ms \<subseteq> set [ensureBaseSdk sh, normalizeOwnership sh, installCmdlineTools sh,
                     writeLicenseMarkers apiLevel, installPlatform sh apiLevel,
                     installSystemImage sh apiLevel target arch,
                     installNdk sh ndkVersion, installCmake sh cmakeVersion]"
    and h: "holds G (\<lambda>_ _. True) w0 w"
    and G: "G (Log ''Using previous installation of base Android SDK, found on ${process.env.ANDROID_HOME}'')"
      "list_all G (baseEvents (isOnMac w0) (androidHome w0))"
      "\<And>e. baseEvent (androidHome w0) e \<Longrightarrow> G e"
      "list_all G (ownershipEvents (isOnMac w0) (inputs w0 ''fresh-sdk-installation'') (androidHome w0))"
      "list_all G (toolsEvents (isOnMac w0) (androidHome w0))"
      "list_all G (markerEvents (isOnMac w0) apiLevel (androidHome w0))"
      "list_all G (platformEvents apiLevel)"
      "list_all G (finalEvents apiLevel target arch ndkVersion cmakeVersion)"
  shows "ensures (block ms) w (kept G (\<lambda>_ _. True) w0)"
proof (rule kept_block_all[OF _ h])
  fix m w1 assume m: "m \<in> set ms" and h1: "holds G (\<lambda>_ _. True) w0 w1"
  note free = diskFree_True
  from h1 have same: "androidHome w1 = androidHome w0" "isOnMac w1 = isOnMac w0" "inputs w1 = inputs w0"
    by (simp_all add: holds_def sameHost_def androidHome_def isOnMac_def)
  have b: "G e" if "e \<in> set (baseEvents (isOnMac w0) (androidHome w0))" for e
    using G(2) that by (simp add: list_all_iff)
  from m ms consider
      "m = ensureBaseSdk sh" | "m = normalizeOwnership sh" | "m = installCmdlineTools sh"
    | "m = writeLicenseMarkers apiLevel" | "m = installPlatform sh apiLevel"
    | "m = installSystemImage sh apiLevel target arch"
    | "m = installNdk sh ndkVersion" | "m = installCmake sh cmakeVersion"
    by auto
  then show "ensures m w1 (kept G (\<lambda>_ _. True) w0)"
  proof cases
    case 1
    show ?thesis
      unfolding 1
      apply (rule ensureBaseSdk_kept[where G = G, OF h1 G(1) b b G(3) b b b G(3) b G(3) G(3) b])
                  apply (simp_all add: same baseEvents_def baseEvent_def)
         apply blast+
      done
  next
    case 2
    show ?thesis
      unfolding 2
    proof (rule normalizeOwnership_kept[OF h1])
      assume "\<not> isOnMac w1" "inputs w1 ''fresh-sdk-installation'' = []"
      with G(4) same show "G (Exec (chownCommand (androidHome w1)))"
        by (simp add: ownershipEvents_def)
    qed simp
  next
    case 3
    from G(5) show ?thesis
      unfolding 3
      by (intro installCmdlineTools_kept[OF h1])
         (simp_all add: same toolsEvents_def cmdlineToolsPathOf_def)
  next
    case 4
    from G(6) show ?thesis
      unfolding 4
      by (intro writeLicenseMarkers_kept[OF h1 free]) (simp_all add: same markerEvents_def)
  next
    case 5
    from G(7) show ?thesis
      unfolding 5
      by (intro installPlatform_kept[OF h1 _ _ free]) (simp_all add: platformEvents_def)
  next
    case 6
    from G(8) show ?thesis
      unfolding 6
      by (intro installSystemImage_kept[OF h1 free]) (simp_all add: finalEvents_def)
  next
    case 7
    from G(8) show ?thesis
      unfolding 7
      by (intro installNdk_kept[OF h1 free]) (simp_all add: finalEvents_def)
  next
    case 8
    from G(8) show ?thesis
      unfolding 8
      by (intro installCmake_kept[OF h1 free]) (simp_all add: finalEvents_def)
  qed
qed

subsection \<open>A run on a host where the SDK root and the command-line tools are there\<close>

lemma normalizeOwnership_run:
  assumes "normalizeOwnership sh w = (r, w')"
  shows "sameHost w w' \<and> env w' = env w \<and> r \<noteq> Returned
         \<and> ((\<not> isOnMac w \<and> inputs w ''fresh-sdk-installation'' = []
              \<and> trace w' = trace w @ [Exec (chownCommand (androidHome w))]
              \<and> disk w' = snd (sh (chownCommand (androidHome w)) (env w) (disk w)))
             \<or> ((isOnMac w \<or> inputs w ''fresh-sdk-installation'' \<noteq> []) \<and> w' = w \<and> r = Val ()))"
proof (cases "\<not> isOnMac w \<and> inputs w ''fresh-sdk-installation'' = []")
  case True
  with assms show ?thesis
    by (cases "sh (chownCommand (androidHome w)) (env w) (disk w)")
       (auto simp: normalizeOwnership_def reading_def onlyIf_def exec_def emit_def Let_def
          sameHost_def split: if_splits)
next
  case False
  with assms show ?thesis
    by (auto simp: normalizeOwnership_def reading_def onlyIf_def ret_def Let_def sameHost_def)
qed

lemma warm_run:
  assumes t: "truthy (env w ''ANDROID_HOME'')"
    and root: "existsSync (disk w) (androidHome w)"
    and tools: "existsSync (disk w) (cmdlineToolsPathOf (androidHome w))"
    and chown: "\<And>e d. existsSync d (cmdlineToolsPathOf (androidHome w)) \<Longrightarrow>
                  existsSync (snd (sh (chownCommand (androidHome w)) e d)) (cmdlineToolsPathOf (androidHome w))"
    and G: "G (Log ''Using previous installation of base Android SDK, found on ${process.env.ANDROID_HOME}'')"
      "\<not> isOnMac w \<Longrightarrow> inputs w ''fresh-sdk-installation'' = [] \<Longrightarrow> G (Exec (chownCommand (androidHome w)))"
      "list_all G (markerEvents (isOnMac w) apiLevel (androidHome w))"
      "list_all G (lateEvents apiLevel target arch emulatorBuild ndkVersion cmakeVersion
                     (isOnMac w) (androidHome w))"
    and run: "installAndroidSdk sh apiLevel target arch emulatorBuild ndkVersion cmakeVersion w = (r, w')"
  shows "env w' = env w \<and> (\<exists>evs. trace w' = trace w @ evs \<and> list_all G evs)"
proof -
  let ?S = "\<lambda>(e :: string \<Rightarrow> string option) (d :: disk). e = env w"
  let ?w1 = "emit (Log ''Using previous installation of base Android SDK, found on ${process.env.ANDROID_HOME}'') w"
  have free: "diskFree ?S" by (simp add: diskFree_def)
  have "holds G ?S w w" by (simp add: holds_start)
  then have h1: "holds G ?S w ?w1"
    using G(1) by (rule holds_emit)
  have disk1: "disk ?w1 = disk w" by (simp add: emit_def)
  have rest: "ensures (block [writeLicenseMarkers apiLevel, installPlatform sh apiLevel,
                installEmulator sh emulatorBuild, installSystemImage sh apiLevel target arch,
                installNdk sh ndkVersion, installCmake sh cmakeVersion]) w2 (kept G ?S w)"
    if h2: "holds G ?S w w2" for w2
  proof (rule kept_block_Cons)
    from h2 have "androidHome w2 = androidHome w" by (simp add: holds_def sameHost_home)
    with G(3) show "ensures (writeLicenseMarkers apiLevel) w2 (kept G ?S w)"
      by (intro writeLicenseMarkers_kept[OF h2 free]) (simp_all add: markerEvents_def)
  next
    fix w3 assume "holds G ?S w w3"
    then show "ensures (block [installPlatform sh apiLevel,
                installEmulator sh emulatorBuild, installSystemImage sh apiLevel target arch,
                installNdk sh ndkVersion, installCmake sh cmakeVersion]) w3 (kept G ?S w)"
      using free
    proof (rule late_kept)
      fix e assume "e \<in> set (lateEvents apiLevel target arch emulatorBuild ndkVersion cmakeVersion
                     (isOnMac w) (androidHome w))"
      with G(4) show "G e" by (simp add: list_all_iff)
    qed
  qed
  from run_body[OF t run]
  have "block [normalizeOwnership sh, installCmdlineTools sh,
                writeLicenseMarkers apiLevel, installPlatform sh apiLevel,
                installEmulator sh emulatorBuild, installSystemImage sh apiLevel target arch,
                installNdk sh ndkVersion, installCmake sh cmakeVersion] ?w1 = (r, w')"
    by (simp only: block_Cons_Val[where m = "ensureBaseSdk sh" and w = w, OF ensureBaseSdk_warm[OF root]])
  then have "holds G ?S w w'"
  proof (cases rule: block_one)
    case (went w2)
    note own = normalizeOwnership_run[OF went(1)]
    have h2: "holds G ?S w w2"
      using own h1 G(2) by (auto simp: holds_def sameHost_def isOnMac_def androidHome_def emit_def)
    have "existsSync (disk w2) (cmdlineToolsPathOf (androidHome w2))"
      using own tools chown[of "disk w" "env w"]
      by (auto simp: sameHost_home emit_def androidHome_def)
    from went(2) have "block [writeLicenseMarkers apiLevel, installPlatform sh apiLevel,
                installEmulator sh emulatorBuild, installSystemImage sh apiLevel target arch,
                installNdk sh ndkVersion, installCmake sh cmakeVersion] w2 = (r, w')"
      by (simp only: block_Cons_Val[where m = "installCmdlineTools sh" and w = w2,
            OF installCmdlineTools_present[OF \<open>existsSync (disk w2) (cmdlineToolsPathOf (androidHome w2))\<close>]])
    from ensuresD[OF rest[OF h2] this] show ?thesis by (simp add: kept_def)
  next
    case stopped
    note own = normalizeOwnership_run[OF stopped(1)]
    show ?thesis
      using own h1 G(2) stopped(2)
      by (auto simp: holds_def sameHost_def isOnMac_def androidHome_def emit_def)
  qed
  then show ?thesis by (auto simp: holds_def)
qed

subsection \<open>Splitting and joining\<close>

lemma splitOn_not_Nil [simp]: "splitOn c s \<noteq> []"
  by (induction s) (auto split: list.splits)

lemma splitOn_free: "x \<in> set (splitOn c s) \<Longrightarrow> c \<notin> set x"
proof (induction s arbitrary: x)
  case Nil
  then show ?case by simp
next
  case (Cons a s)
  show ?case
  proof (cases "a = c")
    case True
    with Cons show ?thesis by auto
  next
    case False
    obtain y ys where ys: "splitOn c s = y # ys"
      by (cases "splitOn c s") simp_all
    with Cons.prems False have "x = a # y \<or> x \<in> set ys" by simp
    with Cons.IH[of y] Cons.IH[of x] ys False show ?thesis by auto
  qed
qed

lemma splitOn_append: "splitOn c (a @ c # b) = splitOn c a @ splitOn c b"
proof (induction a)
  case Nil
  show ?case by simp
next
  case (Cons x a)
  obtain y ys where "splitOn c a = y # ys"
    by (cases "splitOn c a") simp_all
  with Cons show ?case by simp
qed

lemma splitOn_whole: "c \<notin> set x \<Longrightarrow> splitOn c x = [x]"
  by (induction x) auto

lemma splitOn_joinWith:
  "xs \<noteq> [] \<Longrightarrow> (\<And>x. x \<in> set xs \<Longrightarrow> c \<notin> set x) \<Longrightarrow> splitOn c (joinWith [c] xs) = xs"
proof (induction "[c]" xs rule: joinWith.induct)
  case 1
  then show ?case by simp
next
  case (2 x)
  then show ?case by (simp add: splitOn_whole)
next
  case (3 x y ys)
  then show ?case by (simp add: splitOn_append splitOn_whole)
qed

text \<open>The segments of the filtered path: no \<^verbatim>\<open>Android\<close> in any, each one a segment before.\<close>

lemma pathWithoutAndroid_segments:
  "splitOn CHR '':'' (pathWithoutAndroid path) =
     (if filter (\<lambda>entry. \<not> includesStr entry ''Android'') (splitOn CHR '':'' path) = [] then [[]]
      else filter (\<lambda>entry. \<not> includesStr entry ''Android'') (splitOn CHR '':'' path))"
proof (cases "filter (\<lambda>entry. \<not> includesStr entry ''Android'') (splitOn CHR '':'' path) = []")
  case True
  then show ?thesis by (simp add: pathWithoutAndroid_def)
next
  case False
  have "CHR '':'' \<notin> set x"
    if "x \<in> set (filter (\<lambda>entry. \<not> includesStr entry ''Android'') (splitOn CHR '':'' path))" for x
    using that by (auto dest: splitOn_free)
  from splitOn_joinWith[OF False this] False show ?thesis
    by (simp add: pathWithoutAndroid_def)
qed

subsection \<open>The events of installBaseSdk\<close>

definition baseSdkCommands :: "world \<Rightarrow> string list" where
  "baseSdkCommands w =
     (if existsSync (disk w) (sdkHomeOf (androidHome w))
      then [backupCommand (sdkHomeOf (androidHome w)) (now w)] else [])
     @ [''curl -L '' @ baseSdkUrl (isOnMac w) @ '' -o '' @ androidTmpPath @ '' -s'',
        ''unzip -q '' @ androidTmpPath @ '' -d '' @ androidHome w,
        ''rm '' @ androidTmpPath,
        ''mkdir -p '' @ sdkHomeOf (androidHome w)]"

definition exportedPath :: "world \<Rightarrow> string" where
  "exportedPath w =
     extraPaths (androidHome w) @ '':'' @ pathWithoutAndroid (orElse (env w ''PATH'') [])"

lemma installBaseSdk_run:
  assumes run: "installBaseSdk sh w = (r, w')"
  shows "r \<noteq> Returned \<and> r \<noteq> Val False
         \<and> (\<exists>k. 0 < k \<and> k \<le> length (baseSdkCommands w)
               \<and> trace w' = trace w
                    @ [Log (''Installing Android SDK on '' @ androidHome w),
                       ExportVariable ''ANDROID_SDK_HOME'' (sdkHomeOf (androidHome w))]
                    @ map Exec (take k (baseSdkCommands w))
                    @ (if r = Val True then [ExportVariable ''PATH'' (exportedPath w)] else [])
               \<and> (r = Val True \<longrightarrow> k = length (baseSdkCommands w)))
         \<and> (r = Val True \<longrightarrow>
               env w' = (env w)(''ANDROID_SDK_HOME'' := Some (sdkHomeOf (androidHome w)),
                                ''PATH'' := Some (exportedPath w)))"
proof -
  let ?h = "androidHome w"
  let ?sdkHome = "sdkHomeOf ?h"
  let ?w2 = "emit (ExportVariable ''ANDROID_SDK_HOME'' ?sdkHome)
               ((emit (Log (''Installing Android SDK on '' @ ?h)) w)
                  \<lparr>env := (env w)(''ANDROID_SDK_HOME'' := Some ?sdkHome)\<rparr>)"
  let ?final = "reading (\<lambda>w. exportVariable ''PATH''
                   (extraPaths ?h @ '':'' @ pathWithoutAndroid (orElse (env w ''PATH'') [])))"
  have w2: "disk ?w2 = disk w" "now ?w2 = now w"
    "env ?w2 = (env w)(''ANDROID_SDK_HOME'' := Some ?sdkHome)"
    "trace ?w2 = trace w @ [Log (''Installing Android SDK on '' @ ?h),
                            ExportVariable ''ANDROID_SDK_HOME'' ?sdkHome]"
    by (simp_all add: emit_def)
  have execs: "block (map (exec sh) (baseSdkCommands w) @ [?final]) ?w2 = (rb, w')
               \<and> r = (case rb of Val _ \<Rightarrow> Val True | Returned \<Rightarrow> Returned | Thrown e \<Rightarrow> Thrown e)"
    if "rb = fst (block (map (exec sh) (baseSdkCommands w) @ [?final]) ?w2)" for rb
  proof (cases "existsSync (disk w) ?sdkHome")
    case True
    with run that w2(1,2) show ?thesis
      by (cases "block (map (exec sh) (baseSdkCommands w) @ [?final]) ?w2")
         (auto simp: installBaseSdk_def reading_def Let_def bind_def consoleLog_def exportVariable_def
            onlyIf_def ret_def baseSdkCommands_def emit_def split: outcome.splits prod.splits)
  next
    case False
    with run that w2(1,2) show ?thesis
      by (cases "block (map (exec sh) (baseSdkCommands w) @ [?final]) ?w2")
         (auto simp: installBaseSdk_def reading_def Let_def bind_def consoleLog_def exportVariable_def
            onlyIf_def ret_def baseSdkCommands_def emit_def split: outcome.splits prod.splits)
  qed
  obtain rb where rb: "block (map (exec sh) (baseSdkCommands w) @ [?final]) ?w2 = (rb, w')"
    and r: "r = (case rb of Val _ \<Rightarrow> Val True | Returned \<Rightarrow> Returned | Thrown e \<Rightarrow> Thrown e)"
    using execs by blast
  have ones: "list_all2 emitsOne (map (exec sh) (baseSdkCommands w)) (map Exec (baseSdkCommands w))"
    by (simp add: list_all2_conv_all_nth emitsOne_exec)
  have ne: "baseSdkCommands w \<noteq> []" by (simp add: baseSdkCommands_def)
  from rb show ?thesis
  proof (cases rule: block_split)
    case stopped
    from block_emitsOne[OF ones stopped(1)] ne stopped(2) obtain k where
      "rb \<noteq> Returned" "k \<le> length (baseSdkCommands w)" "0 < k"
      "trace w' = trace ?w2 @ take k (map Exec (baseSdkCommands w))"
      by auto
    with r w2(4) stopped(2) show ?thesis
      by (cases rb) (auto simp: take_map intro!: exI[of _ k])
  next
    case (went w7)
    from block_emitsOne[OF ones went(1)] ne have w7: "env w7 = env ?w2"
      "trace w7 = trace ?w2 @ map Exec (baseSdkCommands w)"
      by auto
    from went(2) have last: "rb = Val ()"
      "w' = emit (ExportVariable ''PATH'' (exportedPath w))
              (w7\<lparr>env := (env w7)(''PATH'' := Some (exportedPath w))\<rparr>)"
      using w7(1) w2(3)
      by (auto simp: bind_def reading_def exportVariable_def ret_def exportedPath_def)
    from last w7 w2(3,4) r ne show ?thesis
      by (auto simp: emit_def intro!: exI[of _ "length (baseSdkCommands w)"])
  qed
qed

text \<open>A backup command that fails ends the function there.\<close>

lemma installBaseSdk_backup_failed:
  assumes there: "existsSync (disk w) (sdkHomeOf (androidHome w))"
    and failed: "fst (sh (backupCommand (sdkHomeOf (androidHome w)) (now w))
                       ((env w)(''ANDROID_SDK_HOME'' := Some (sdkHomeOf (androidHome w)))) (disk w)) \<noteq> 0"
    and run: "installBaseSdk sh w = (r, w')"
  shows "trace w' = trace w @ [Log (''Installing Android SDK on '' @ androidHome w),
                               ExportVariable ''ANDROID_SDK_HOME'' (sdkHomeOf (androidHome w)),
                               Exec (backupCommand (sdkHomeOf (androidHome w)) (now w))]"
  using assms
  by (auto simp: installBaseSdk_def reading_def Let_def bind_def consoleLog_def exportVariable_def
      onlyIf_def exec_def emit_def ret_def split: prod.splits)

subsection \<open>The directories above the marker files\<close>

lemma dirsAbove_append: "dirsAbove acc (p @ q) = dirsAbove acc p @ dirsAbove (acc @ p) q"
  by (induction p arbitrary: acc) simp_all

lemma dirsAbove_shorter: "a \<in> set (dirsAbove acc p) \<Longrightarrow> length a < length acc + length p"
proof (induction p arbitrary: acc)
  case Nil
  then show ?case by simp
next
  case (Cons c cs)
  from Cons.prems have "a = acc \<or> a \<in> set (dirsAbove (acc @ [c]) cs)"
    by (simp split: if_splits)
  then show ?case
  proof
    assume "a = acc" then show ?thesis by simp
  next
    assume "a \<in> set (dirsAbove (acc @ [c]) cs)"
    from Cons.IH[OF this] show ?thesis by simp
  qed
qed

lemma ancestors_shorter: "a \<in> set (ancestors p) \<Longrightarrow> length a < length p"
  using dirsAbove_shorter[of a "[]" p] by (simp add: ancestors_def)

lemma ancestors_child:
  "ancestors (h @ ''/licenses'') = ancestors h @ (if h = [] then [] else [h])"
  "ancestors (h @ ''/cmdline-tools'') = ancestors h @ (if h = [] then [] else [h])"
  by (simp_all add: ancestors_def dirsAbove_append)

lemma ancestors_marker:
  "ancestors (sdkPreviewLicensePath h) = ancestors (h @ ''/licenses'') @ [h @ ''/licenses'']"
  "ancestors (sdkArmDbtLicensePath h) = ancestors (h @ ''/licenses'') @ [h @ ''/licenses'']"
  by (simp_all add: ancestors_def dirsAbove_append sdkPreviewLicensePath_def sdkArmDbtLicensePath_def)

lemma underDirs_marker:
  "underDirs d (sdkPreviewLicensePath h)
     = (underDirs d (h @ ''/licenses'') \<and> d (h @ ''/licenses'') = Some Dir)"
  "underDirs d (sdkArmDbtLicensePath h)
     = (underDirs d (h @ ''/licenses'') \<and> d (h @ ''/licenses'') = Some Dir)"
  by (simp_all add: underDirs_def ancestors_marker)

text \<open>Writing the first marker changes nothing for the second.\<close>

lemma underDirs_other_marker:
  "underDirs (d(sdkPreviewLicensePath h := Some (File c))) (sdkArmDbtLicensePath h)
     = underDirs d (sdkArmDbtLicensePath h)"
proof -
  have "a \<noteq> sdkPreviewLicensePath h" if "a \<in> set (ancestors (sdkArmDbtLicensePath h))" for a
    using ancestors_shorter[OF that]
    by (auto simp: sdkPreviewLicensePath_def sdkArmDbtLicensePath_def)
  then show ?thesis
    by (auto simp: underDirs_def list_all_iff)
qed

lemma existsSync_other_marker:
  "existsSync (d(sdkPreviewLicensePath h := Some (File c))) (sdkArmDbtLicensePath h)
     = existsSync d (sdkArmDbtLicensePath h)"
proof -
  have "sdkArmDbtLicensePath h \<noteq> sdkPreviewLicensePath h"
    by (simp add: sdkPreviewLicensePath_def sdkArmDbtLicensePath_def)
  then show ?thesis by (simp add: existsSync_def underDirs_other_marker)
qed

subsection \<open>The marker step\<close>

text \<open>With the licenses directory there, each marker is written exactly when its test passes.\<close>

lemma writeLicenseMarkers_run:
  assumes dir: "existsSync (disk w) (androidHome w @ ''/licenses'')"
      "disk w (androidHome w @ ''/licenses'') = Some Dir"
  shows "\<exists>w1. writeLicenseMarkers apiLevel w = (Val (), w1) \<and> sameHost w w1
           \<and> trace w1 = trace w
               @ (if \<not> isOnMac w \<and> \<not> existsSync (disk w) (sdkPreviewLicensePath (androidHome w))
                  then [WriteFile (sdkPreviewLicensePath (androidHome w)) sdkPreviewLicense] else [])
               @ (if apiLevel = 30 \<and> \<not> existsSync (disk w) (sdkArmDbtLicensePath (androidHome w))
                  then [WriteFile (sdkArmDbtLicensePath (androidHome w)) sdkArmDbtLicense] else [])"
proof -
  let ?h = "androidHome w"
  from dir have ud: "underDirs (disk w) (sdkPreviewLicensePath ?h)"
      "underDirs (disk w) (sdkArmDbtLicensePath ?h)"
    by (simp_all add: underDirs_marker existsSync_def)
  have nd: "disk w p \<noteq> Some Dir" if "\<not> existsSync (disk w) p" "underDirs (disk w) p" for p
    using that by (auto simp: existsSync_def)
  let ?first = "\<not> isOnMac w \<and> \<not> existsSync (disk w) (sdkPreviewLicensePath ?h)"
  let ?w1 = "if ?first
             then emit (WriteFile (sdkPreviewLicensePath ?h) sdkPreviewLicense)
                    (w\<lparr>disk := (disk w)(sdkPreviewLicensePath ?h := Some (File sdkPreviewLicense))\<rparr>)
             else w"
  have one: "reading (\<lambda>w. onlyIf (\<not> isOnMac w \<and> \<not> existsSync (disk w) (sdkPreviewLicensePath ?h))
                             (writeFileSync (sdkPreviewLicensePath ?h) sdkPreviewLicense)) w
             = (Val (), ?w1)"
    using ud(1) nd[OF _ ud(1)]
    by (simp add: reading_def onlyIf_def writeFileSync_def ret_def)
  have ex1: "existsSync (disk ?w1) (sdkArmDbtLicensePath ?h) = existsSync (disk w) (sdkArmDbtLicensePath ?h)"
    by (simp add: emit_def existsSync_other_marker)
  have ud1: "underDirs (disk ?w1) (sdkArmDbtLicensePath ?h)"
    using ud(2) by (simp add: emit_def underDirs_other_marker)
  let ?second = "apiLevel = 30 \<and> \<not> existsSync (disk w) (sdkArmDbtLicensePath ?h)"
  let ?w2 = "if ?second
             then emit (WriteFile (sdkArmDbtLicensePath ?h) sdkArmDbtLicense)
                    (?w1\<lparr>disk := (disk ?w1)(sdkArmDbtLicensePath ?h := Some (File sdkArmDbtLicense))\<rparr>)
             else ?w1"
  have two: "reading (\<lambda>w. onlyIf (apiLevel = 30 \<and> \<not> existsSync (disk w) (sdkArmDbtLicensePath ?h))
                             (writeFileSync (sdkArmDbtLicensePath ?h) sdkArmDbtLicense)) ?w1
             = (Val (), ?w2)"
  proof (cases ?second)
    case True
    with ex1 have "\<not> existsSync (disk ?w1) (sdkArmDbtLicensePath ?h)" by simp
    with ud1 have "disk ?w1 (sdkArmDbtLicensePath ?h) \<noteq> Some Dir"
      by (auto simp: existsSync_def)
    with True ex1 ud1 show ?thesis
      by (simp add: reading_def onlyIf_def writeFileSync_def ret_def)
  next
    case False
    with ex1 show ?thesis
      by (auto simp: reading_def onlyIf_def ret_def)
  qed
  have "writeLicenseMarkers apiLevel w =
          block
            [reading (\<lambda>w. onlyIf (\<not> isOnMac w \<and> \<not> existsSync (disk w) (sdkPreviewLicensePath ?h))
                             (writeFileSync (sdkPreviewLicensePath ?h) sdkPreviewLicense)),
             reading (\<lambda>w. onlyIf (apiLevel = 30 \<and> \<not> existsSync (disk w) (sdkArmDbtLicensePath ?h))
                             (writeFileSync (sdkArmDbtLicensePath ?h) sdkArmDbtLicense))] w"
    unfolding writeLicenseMarkers_def
    by (rule trans[OF reading_def]) (simp only: Let_def)
  also have "\<dots> =
          block
            [reading (\<lambda>w. onlyIf (apiLevel = 30 \<and> \<not> existsSync (disk w) (sdkArmDbtLicensePath ?h))
                             (writeFileSync (sdkArmDbtLicensePath ?h) sdkArmDbtLicense))] ?w1"
    by (rule block_Cons_Val) (rule one)
  also have "\<dots> = block [] ?w2"
    by (rule block_Cons_Val) (rule two)
  also have "\<dots> = (Val (), ?w2)"
    by (simp add: ret_def)
  finally have "writeLicenseMarkers apiLevel w = (Val (), ?w2)" .
  moreover have "sameHost w ?w2"
    by (simp add: sameHost_def emit_def)
  moreover have "trace ?w2 = trace w
               @ (if ?first then [WriteFile (sdkPreviewLicensePath ?h) sdkPreviewLicense] else [])
               @ (if ?second then [WriteFile (sdkArmDbtLicensePath ?h) sdkArmDbtLicense] else [])"
    by (simp add: emit_def)
  ultimately show ?thesis by blast
qed

text \<open>Without the licenses directory the first write that is tried throws.\<close>

lemma writeLicenseMarkers_no_dir:
  assumes "disk w (androidHome w @ ''/licenses'') \<noteq> Some Dir" and "\<not> isOnMac w \<or> apiLevel = 30"
  shows "writeLicenseMarkers apiLevel w =
           (Thrown (ENOENT (if isOnMac w then sdkArmDbtLicensePath (androidHome w)
                            else sdkPreviewLicensePath (androidHome w))), w)"
  using assms
  by (auto simp: writeLicenseMarkers_def reading_def Let_def onlyIf_def writeFileSync_def ret_def
      bind_def existsSync_def underDirs_marker)

subsection \<open>The statements before the marker step\<close>

lemma early_kept:
  assumes warm: "existsSync (disk w) (androidHome w) \<Longrightarrow>
         G (Log ''Using previous installation of base Android SDK, found on ${process.env.ANDROID_HOME}'')"
    and base: "\<not> existsSync (disk w) (androidHome w) \<Longrightarrow> list_all G (baseEvents (isOnMac w) (androidHome w))"
    and base': "\<And>e. \<not> existsSync (disk w) (androidHome w) \<Longrightarrow> baseEvent (androidHome w) e \<Longrightarrow> G e"
    and own: "list_all G (ownershipEvents (isOnMac w) (inputs w ''fresh-sdk-installation'') (androidHome w))"
    and tools: "list_all G (toolsEvents (isOnMac w) (androidHome w))"
  shows "ensures (block [ensureBaseSdk sh, normalizeOwnership sh, installCmdlineTools sh]) w
           (kept G (\<lambda>_ _. True) w)"
proof -
  let ?S = "\<lambda>(_ :: string \<Rightarrow> string option) (_ :: disk). True"
  have h0: "holds G ?S w w" by (simp add: holds_start)
  have p1: "ensures (ensureBaseSdk sh) w (kept G ?S w)"
  proof (cases "existsSync (disk w) (androidHome w)")
    case True
    from holds_emit[OF h0 warm[OF True]] True show ?thesis
      by (simp add: ensures_def ensureBaseSdk_warm kept_def)
  next
    case False
    have l: "G e" if "e \<in> set (baseEvents (isOnMac w) (androidHome w))" for e
      using base[OF False] that by (simp add: list_all_iff)
    have b: "G e" if "baseEvent (androidHome w) e" for e
      using base'[OF False that] .
    show ?thesis
      apply (rule ensureBaseSdk_kept[where G = G, OF h0 _ l l b l l l b l b b l])
      apply (auto simp: False baseEvents_def baseEvent_def)
      done
  qed
  have p2: "ensures (normalizeOwnership sh) w1 (kept G ?S w)" if h: "holds G ?S w w1" for w1
  proof (rule normalizeOwnership_kept[OF h])
    assume a: "\<not> isOnMac w1" "inputs w1 ''fresh-sdk-installation'' = []"
    from h have "androidHome w1 = androidHome w" "isOnMac w1 = isOnMac w" "inputs w1 = inputs w"
      by (simp_all add: holds_def sameHost_def androidHome_def isOnMac_def)
    with a own show "G (Exec (chownCommand (androidHome w1)))"
      by (simp add: ownershipEvents_def)
  qed simp
  have p3: "ensures (installCmdlineTools sh) w1 (kept G ?S w)" if h: "holds G ?S w w1" for w1
  proof -
    from h have "androidHome w1 = androidHome w" "isOnMac w1 = isOnMac w"
      by (simp_all add: holds_def sameHost_home sameHost_mac)
    with tools show ?thesis
      by (intro installCmdlineTools_kept[OF h])
         (simp_all add: toolsEvents_def cmdlineToolsPathOf_def)
  qed
  show ?thesis
    apply (rule kept_block_Cons[OF p1])
    apply (rule kept_block_Cons[OF p2], assumption)
    apply (rule kept_block_Cons[OF p3], assumption)
    apply (erule kept_block_Nil)
    done
qed

text \<open>A run that reaches the marker step with the licenses directory there.\<close>

lemma markers_in_run:
  assumes home: "truthy (env w ''ANDROID_HOME'')"
    and reach: "block [ensureBaseSdk sh, normalizeOwnership sh, installCmdlineTools sh] w = (Val (), w3)"
    and dir: "existsSync (disk w3) (androidHome w @ ''/licenses'')"
      "disk w3 (androidHome w @ ''/licenses'') = Some Dir"
    and run: "installAndroidSdk sh apiLevel target arch emulatorBuild ndkVersion cmakeVersion w = (r, w')"
  shows "\<exists>before after.
           trace w' = trace w @ before
             @ (if \<not> isOnMac w \<and> \<not> existsSync (disk w3) (sdkPreviewLicensePath (androidHome w))
                then [WriteFile (sdkPreviewLicensePath (androidHome w)) sdkPreviewLicense] else [])
             @ (if apiLevel = 30 \<and> \<not> existsSync (disk w3) (sdkArmDbtLicensePath (androidHome w))
                then [WriteFile (sdkArmDbtLicensePath (androidHome w)) sdkArmDbtLicense] else [])
             @ after
           \<and> (\<forall>p c. WriteFile p c \<notin> set before \<union> set after)"
proof -
  let ?G = "\<lambda>e. \<forall>p c. e \<noteq> WriteFile p c"
  let ?S = "\<lambda>(_ :: string \<Rightarrow> string option) (_ :: disk). True"
  have "ensures (block [ensureBaseSdk sh, normalizeOwnership sh, installCmdlineTools sh]) w
           (kept ?G ?S w)"
    by (rule early_kept)
       (auto simp: baseEvents_def baseEvent_def ownershipEvents_def toolsEvents_def)
  from ensuresD[OF this reach] have h3: "holds ?G ?S w w3" by (simp add: kept_def)
  then obtain before where before: "trace w3 = trace w @ before" "list_all ?G before"
    by (auto simp: holds_def)
  from h3 have host: "androidHome w3 = androidHome w" "isOnMac w3 = isOnMac w"
    by (simp_all add: holds_def sameHost_home sameHost_mac)
  from writeLicenseMarkers_run[of w3 apiLevel] dir obtain w4 where
    w4: "writeLicenseMarkers apiLevel w3 = (Val (), w4)" "sameHost w3 w4"
      "trace w4 = trace w3
         @ (if \<not> isOnMac w \<and> \<not> existsSync (disk w3) (sdkPreviewLicensePath (androidHome w))
            then [WriteFile (sdkPreviewLicensePath (androidHome w)) sdkPreviewLicense] else [])
         @ (if apiLevel = 30 \<and> \<not> existsSync (disk w3) (sdkArmDbtLicensePath (androidHome w))
            then [WriteFile (sdkArmDbtLicensePath (androidHome w)) sdkArmDbtLicense] else [])"
    unfolding host by blast
  have "block ([ensureBaseSdk sh, normalizeOwnership sh, installCmdlineTools sh]
          @ [writeLicenseMarkers apiLevel, installPlatform sh apiLevel,
             installEmulator sh emulatorBuild, installSystemImage sh apiLevel target arch,
             installNdk sh ndkVersion, installCmake sh cmakeVersion]) w = (r, w')"
    using run_body[OF home run] by simp
  then have "block [writeLicenseMarkers apiLevel, installPlatform sh apiLevel,
             installEmulator sh emulatorBuild, installSystemImage sh apiLevel target arch,
             installNdk sh ndkVersion, installCmake sh cmakeVersion] w3 = (r, w')"
    using reach by (simp only: block_append) (simp add: bind_def)
  then have rest: "block [installPlatform sh apiLevel,
             installEmulator sh emulatorBuild, installSystemImage sh apiLevel target arch,
             installNdk sh ndkVersion, installCmake sh cmakeVersion] w4 = (r, w')"
    by (simp only: block_Cons_Val[where m = "writeLicenseMarkers apiLevel" and w = w3, OF w4(1)])
  have "holds ?G ?S w4 w4" by (simp add: holds_start)
  then have "ensures (block [installPlatform sh apiLevel,
             installEmulator sh emulatorBuild, installSystemImage sh apiLevel target arch,
             installNdk sh ndkVersion, installCmake sh cmakeVersion]) w4 (kept ?G ?S w4)"
    by (rule late_kept[OF _ diskFree_True])
       (auto simp: lateEvents_def platformEvents_def emulatorEvents_def finalEvents_def
          split: if_splits)
  from ensuresD[OF this rest] obtain after where after: "trace w' = trace w4 @ after" "list_all ?G after"
    by (auto simp: kept_def holds_def)
  from before after w4(3) show ?thesis
    by (intro exI[of _ before] exI[of _ after]) (auto simp: list_all_iff)
qed

text \<open>The same statements where the SDK root is there, with a condition \<open>S\<close> on the disk kept.\<close>

lemma early_warm_kept:
  assumes root: "existsSync (disk w) (androidHome w)"
    and S0: "S (env w) (disk w)"
    and warm: "G (Log ''Using previous installation of base Android SDK, found on ${process.env.ANDROID_HOME}'')"
    and own: "list_all G (ownershipEvents (isOnMac w) (inputs w ''fresh-sdk-installation'') (androidHome w))"
    and tools: "list_all G (toolsEvents (isOnMac w) (androidHome w))"
    and chown: "\<And>e d. S e d \<Longrightarrow> S e (snd (sh (chownCommand (androidHome w)) e d))"
    and mkdir: "\<And>e d. S e d \<Longrightarrow>
           S e (\<lambda>q. if q \<in> set (ancestors (androidHome w @ ''/cmdline-tools'') @ [androidHome w @ ''/cmdline-tools''])
                     then Some Dir else d q)"
    and curl: "\<And>e d. S e d \<Longrightarrow> S e (snd (sh (''curl -fo commandlinetools.zip '' @ cmdlineToolsUrl (isOnMac w)) e d))"
    and unzip: "\<And>e d. S e d \<Longrightarrow>
           S e (snd (sh (''unzip -q commandlinetools.zip -d '' @ cmdlineToolsPathOf (androidHome w)) e d))"
    and rm: "\<And>e d. S e d \<Longrightarrow>
           S e (\<lambda>q. if q = ''commandlinetools.zip'' \<or> startsWith q (''commandlinetools.zip'' @ ''/'')
                     then None else d q)"
    and path: "\<And>e d v. S e d \<Longrightarrow> S (e(''PATH'' := Some v)) d"
  shows "ensures (block [ensureBaseSdk sh, normalizeOwnership sh, installCmdlineTools sh]) w
           (kept G S w)"
proof -
  have h0: "holds G S w w" using S0 by (simp add: holds_start)
  have "S (env (emit e w)) (disk (emit e w))" for e
    using S0 by (simp add: emit_def)
  have p1: "ensures (ensureBaseSdk sh) w (kept G S w)"
    using holds_emit[OF h0 warm] root
    by (simp add: ensures_def ensureBaseSdk_warm kept_def)
  have p2: "ensures (normalizeOwnership sh) w1 (kept G S w)" if h: "holds G S w w1" for w1
  proof -
    from h have host: "androidHome w1 = androidHome w" "isOnMac w1 = isOnMac w" "inputs w1 = inputs w"
      by (simp_all add: holds_def sameHost_def androidHome_def isOnMac_def)
    show ?thesis
    proof (rule normalizeOwnership_kept[OF h])
      assume "\<not> isOnMac w1" "inputs w1 ''fresh-sdk-installation'' = []"
      with host own show "G (Exec (chownCommand (androidHome w1)))"
        by (simp add: ownershipEvents_def)
    next
      fix e d assume "S e d"
      then show "S e (snd (sh (chownCommand (androidHome w1)) e d))"
        unfolding host by (rule chown)
    qed
  qed
  have p3: "ensures (installCmdlineTools sh) w1 (kept G S w)" if h: "holds G S w w1" for w1
  proof -
    from h have host: "androidHome w1 = androidHome w" "isOnMac w1 = isOnMac w"
      by (simp_all add: holds_def sameHost_home sameHost_mac)
    from tools have G: "G (Log ''Installing new cmdline-tools.'')"
      "G (MkdirP (androidHome w @ ''/cmdline-tools''))"
      "G (Exec (''curl -fo commandlinetools.zip '' @ cmdlineToolsUrl (isOnMac w)))"
      "G (Exec (''unzip -q commandlinetools.zip -d '' @ cmdlineToolsPathOf (androidHome w)))"
      "G (RmRF ''commandlinetools.zip'')"
      "G (AddPath (cmdlineToolsPathOf (androidHome w) @ ''/tools:'' @ cmdlineToolsPathOf (androidHome w)
                     @ ''/tools/bin:'' @ androidHome w @ ''/platform-tools''))"
      by (simp_all add: toolsEvents_def)
    show ?thesis
      unfolding host[symmetric]
      apply (rule installCmdlineTools_kept[OF h])
                apply (simp_all only: host G)
          apply (erule mkdir)
         apply (erule curl)
        apply (erule unzip)
       apply (erule rm)
      apply (erule path)
      done
  qed
  show ?thesis
    apply (rule kept_block_Cons[OF p1])
    apply (rule kept_block_Cons[OF p2], assumption)
    apply (rule kept_block_Cons[OF p3], assumption)
    apply (erule kept_block_Nil)
    done
qed

text \<open>Making the directory of the command-line tools does not make the licenses directory.\<close>

lemma licenses_not_made:
  "h @ ''/licenses'' \<notin> set (ancestors (h @ ''/cmdline-tools'') @ [h @ ''/cmdline-tools''])"
proof -
  have "h @ ''/licenses'' \<notin> set (ancestors h)"
    using ancestors_shorter[of "h @ ''/licenses''" h] by auto
  then show ?thesis
    by (simp add: ancestors_child)
qed

text \<open>
  A run that starts with the SDK root there and no licenses directory, none being made by
  the commands run before the marker step, ends at that step or before it.
\<close>

lemma no_licenses_run:
  assumes home: "truthy (env w ''ANDROID_HOME'')"
    and root: "existsSync (disk w) (androidHome w)"
    and nolic: "disk w (androidHome w @ ''/licenses'') \<noteq> Some Dir"
    and shell: "\<And>c e d. c \<in> {chownCommand (androidHome w),
                            ''curl -fo commandlinetools.zip '' @ cmdlineToolsUrl (isOnMac w),
                            ''unzip -q commandlinetools.zip -d '' @ androidHome w @ ''/cmdline-tools''} \<Longrightarrow>
                   d (androidHome w @ ''/licenses'') \<noteq> Some Dir \<Longrightarrow>
                   snd (sh c e d) (androidHome w @ ''/licenses'') \<noteq> Some Dir"
    and plat: "\<not> isOnMac w \<or> apiLevel = 30"
    and G: "G (Log ''Using previous installation of base Android SDK, found on ${process.env.ANDROID_HOME}'')"
      "list_all G (ownershipEvents (isOnMac w) (inputs w ''fresh-sdk-installation'') (androidHome w))"
      "list_all G (toolsEvents (isOnMac w) (androidHome w))"
    and run: "installAndroidSdk sh apiLevel target arch emulatorBuild ndkVersion cmakeVersion w = (r, w')"
  shows "(\<exists>e. r = Thrown e)
         \<and> (\<forall>w3. block [ensureBaseSdk sh, normalizeOwnership sh, installCmdlineTools sh] w = (Val (), w3) \<longrightarrow>
               r = Thrown (ENOENT (if isOnMac w then sdkArmDbtLicensePath (androidHome w)
                                   else sdkPreviewLicensePath (androidHome w)))
               \<and> w' = w3)
         \<and> (\<exists>evs. trace w' = trace w @ evs \<and> list_all G evs)"
proof -
  let ?L = "androidHome w @ ''/licenses''"
  let ?S = "\<lambda>(e :: string \<Rightarrow> string option) (d :: disk). d ?L \<noteq> Some Dir"
  have pre: "ensures (block [ensureBaseSdk sh, normalizeOwnership sh, installCmdlineTools sh]) w
           (kept G ?S w)"
  proof (rule early_warm_kept[where S = ?S and G = G, OF root nolic G])
    fix e :: "string \<Rightarrow> string option" and d :: disk
    assume S: "d ?L \<noteq> Some Dir"
    show "snd (sh (chownCommand (androidHome w)) e d) ?L \<noteq> Some Dir"
      by (rule shell[where d = d, OF _ S]) simp
    show "snd (sh (''curl -fo commandlinetools.zip '' @ cmdlineToolsUrl (isOnMac w)) e d) ?L \<noteq> Some Dir"
      by (rule shell[where d = d, OF _ S]) simp
    show "snd (sh (''unzip -q commandlinetools.zip -d '' @ cmdlineToolsPathOf (androidHome w)) e d) ?L
            \<noteq> Some Dir"
      by (rule shell[where d = d, OF _ S]) (simp add: cmdlineToolsPathOf_def)
    show "(if ?L \<in> set (ancestors (androidHome w @ ''/cmdline-tools'') @ [androidHome w @ ''/cmdline-tools''])
           then Some Dir else d ?L) \<noteq> Some Dir"
      using S licenses_not_made[of "androidHome w"] by simp
    show "(if ?L = ''commandlinetools.zip'' \<or> startsWith ?L (''commandlinetools.zip'' @ ''/'')
           then None else d ?L) \<noteq> Some Dir"
      using S by simp
    show "d ?L \<noteq> Some Dir" by (rule S)
  qed
  have "block ([ensureBaseSdk sh, normalizeOwnership sh, installCmdlineTools sh]
          @ [writeLicenseMarkers apiLevel, installPlatform sh apiLevel,
             installEmulator sh emulatorBuild, installSystemImage sh apiLevel target arch,
             installNdk sh ndkVersion, installCmake sh cmakeVersion]) w = (r, w')"
    using run_body[OF home run] by simp
  then show ?thesis
  proof (cases rule: block_split)
    case (went w3)
    from ensuresD[OF pre went(1)] have h3: "holds G ?S w w3" by (simp add: kept_def)
    then have host: "androidHome w3 = androidHome w" "isOnMac w3 = isOnMac w"
      by (simp_all add: holds_def sameHost_home sameHost_mac)
    from h3 have "disk w3 (androidHome w3 @ ''/licenses'') \<noteq> Some Dir"
      by (simp add: holds_def host)
    from writeLicenseMarkers_no_dir[OF this, of apiLevel] plat
    have "writeLicenseMarkers apiLevel w3 =
           (Thrown (ENOENT (if isOnMac w then sdkArmDbtLicensePath (androidHome w)
                            else sdkPreviewLicensePath (androidHome w))), w3)"
      by (simp add: host)
    with went(2) have "r = Thrown (ENOENT (if isOnMac w then sdkArmDbtLicensePath (androidHome w)
                            else sdkPreviewLicensePath (androidHome w)))" "w' = w3"
      by (simp_all add: bind_def)
    with went(1) h3 show ?thesis
      by (auto simp: holds_def)
  next
    case stopped
    from ensuresD[OF pre stopped(1)] have h: "holds G ?S w w'" and "r \<noteq> Returned"
      by (simp_all add: kept_def)
    with stopped(2) have "\<exists>e. r = Thrown e" by (cases r) simp_all
    with stopped h show ?thesis
      by (auto simp: holds_def)
  qed
qed

subsection \<open>What leaves the command-line tools in place\<close>

lemma dirsAbove_starts:
  "a \<in> set (dirsAbove acc p) \<Longrightarrow> a \<noteq> [] \<and> (\<exists>rest. acc @ p = a @ rest)"
proof (induction p arbitrary: acc)
  case Nil
  then show ?case by simp
next
  case (Cons c cs)
  from Cons.prems have "(a = acc \<and> acc \<noteq> []) \<or> a \<in> set (dirsAbove (acc @ [c]) cs)"
    by (simp split: if_splits)
  then show ?case
  proof
    assume "a = acc \<and> acc \<noteq> []" then show ?thesis by simp
  next
    assume "a \<in> set (dirsAbove (acc @ [c]) cs)"
    from Cons.IH[OF this] show ?thesis by simp
  qed
qed

lemma ancestors_absolute:
  assumes "a \<in> set (ancestors p)" and "startsWith p ''/''"
  shows "startsWith a ''/''"
proof -
  from dirsAbove_starts[of a "[]" p] assms(1) obtain rest where "a \<noteq> []" "p = a @ rest"
    by (auto simp: ancestors_def)
  with assms(2) show ?thesis
    by (cases a; cases p) (auto simp: startsWith_def)
qed

lemma existsSync_same:
  assumes "\<And>a. a \<in> set (ancestors p @ [p]) \<Longrightarrow> d' a = d a"
  shows "existsSync d' p = existsSync d p"
  using assms by (auto simp: existsSync_def underDirs_def list_all_iff)

lemma root_of_tools:
  assumes "existsSync d (h @ ''/cmdline-tools'')" and "h \<noteq> []"
  shows "existsSync d h"
  using assms by (auto simp: existsSync_def underDirs_def ancestors_child)

text \<open>The paths that hold the tools directory, for an absolute SDK root.\<close>

lemma tools_paths:
  assumes abs: "startsWith h ''/''" and a: "a \<in> set (ancestors (h @ ''/cmdline-tools'') @ [h @ ''/cmdline-tools''])"
  shows "startsWith a ''/''" and "length a \<le> length h \<or> a = h @ ''/cmdline-tools''"
proof -
  from abs have t: "startsWith (h @ ''/cmdline-tools'') ''/''"
    by (cases h) (auto simp: startsWith_def)
  from a t show "startsWith a ''/''"
    by (auto dest: ancestors_absolute)
  from a show "length a \<le> length h \<or> a = h @ ''/cmdline-tools''"
    using ancestors_shorter[of a h] by (auto simp: ancestors_child split: if_splits)
qed

lemma tools_stay_rm_zip:
  assumes abs: "startsWith h ''/''" and p: "p = ''commandlinetools.zip'' \<or> p = ''emulator.zip''"
  shows "existsSync (\<lambda>q. if q = p \<or> startsWith q (p @ ''/'') then None else d q) (h @ ''/cmdline-tools'')
         = existsSync d (h @ ''/cmdline-tools'')"
proof (rule existsSync_same)
  fix a assume "a \<in> set (ancestors (h @ ''/cmdline-tools'') @ [h @ ''/cmdline-tools''])"
  from tools_paths(1)[OF abs this] p
  show "(if a = p \<or> startsWith a (p @ ''/'') then None else d a) = d a"
    by (cases a) (auto simp: startsWith_def)
qed

lemma tools_stay_rm_emulator:
  assumes abs: "startsWith h ''/''"
  shows "existsSync (\<lambda>q. if q = h @ ''/emulator'' \<or> startsWith q ((h @ ''/emulator'') @ ''/'') then None else d q)
           (h @ ''/cmdline-tools'')
         = existsSync d (h @ ''/cmdline-tools'')"
proof (rule existsSync_same)
  fix a assume "a \<in> set (ancestors (h @ ''/cmdline-tools'') @ [h @ ''/cmdline-tools''])"
  from tools_paths(2)[OF abs this]
  show "(if a = h @ ''/emulator'' \<or> startsWith a ((h @ ''/emulator'') @ ''/'') then None else d a) = d a"
    by (auto simp: startsWith_def)
qed

lemma tools_stay_write:
  assumes abs: "startsWith h ''/''" and p: "p = sdkPreviewLicensePath h \<or> p = sdkArmDbtLicensePath h"
  shows "existsSync (d(p := Some (File c))) (h @ ''/cmdline-tools'') = existsSync d (h @ ''/cmdline-tools'')"
proof (rule existsSync_same)
  fix a assume "a \<in> set (ancestors (h @ ''/cmdline-tools'') @ [h @ ''/cmdline-tools''])"
  from tools_paths(2)[OF abs this] p
  show "(d(p := Some (File c))) a = d a"
    by (auto simp: sdkPreviewLicensePath_def sdkArmDbtLicensePath_def)
qed

text \<open>
  The statements after the tools step, for a condition \<open>S\<close> that every external command,
  the two removals and the two marker writes keep.
\<close>

lemma after_tools_lasting:
  assumes h: "holds (\<lambda>_. True) S w0 w"
    and sh: "\<And>c e d. S e d \<Longrightarrow> S e (snd (sh c e d))"
    and rm: "\<And>p e d. p = androidHome w0 @ ''/emulator'' \<or> p = ''emulator.zip'' \<Longrightarrow> S e d \<Longrightarrow>
               S e (\<lambda>q. if q = p \<or> startsWith q (p @ ''/'') then None else d q)"
    and wr: "\<And>p c e d. p = sdkPreviewLicensePath (androidHome w0) \<or> p = sdkArmDbtLicensePath (androidHome w0)
               \<Longrightarrow> S e d \<Longrightarrow> S e (d(p := Some (File c)))"
  shows "ensures
           (block [writeLicenseMarkers apiLevel, installPlatform sh apiLevel,
                   installEmulator sh emulatorBuild, installSystemImage sh apiLevel target arch,
                   installNdk sh ndkVersion, installCmake sh cmakeVersion]) w
           (kept (\<lambda>_. True) S w0)"
proof -
  let ?G = "\<lambda>_ :: event. True"
  have ex: "ensures (exec sh c) w1 (kept ?G S w0)" if "holds ?G S w0 w1" for c w1
    by (rule kept_exec[OF _ _ that]) (simp, erule sh)
  have lg: "ensures (consoleLog msg) w1 (kept ?G S w0)" if "holds ?G S w0 w1" for msg w1
    by (rule kept_consoleLog[OF _ that]) simp
  have home: "androidHome w1 = androidHome w0" if "holds ?G S w0 w1" for w1
    using that by (simp add: holds_def sameHost_home)
  have p4: "ensures (writeLicenseMarkers apiLevel) w1 (kept ?G S w0)" if h1: "holds ?G S w0 w1" for w1
    unfolding writeLicenseMarkers_def
    apply (rule ensures_reading)
    apply (simp only: Let_def home[OF h1])
    apply (rule kept_block_Cons)
     apply (rule ensures_reading)
     apply (rule kept_onlyIf[OF _ h1])
     apply (rule kept_writeFileSync[OF _ _ h1])
      apply simp
     apply (erule wr[rotated])
     apply simp
    apply (rule kept_block_Cons)
     apply (rule ensures_reading)
     apply (rule kept_onlyIf)
      apply (rule kept_writeFileSync)
        apply simp
       apply (erule wr[rotated])
       apply simp
      apply assumption
     apply assumption
    apply (erule kept_block_Nil)
    done
  have p5: "ensures (installPlatform sh apiLevel) w1 (kept ?G S w0)" if "holds ?G S w0 w1" for w1
    unfolding installPlatform_def
    by (intro kept_block_Cons kept_block_Nil lg ex that | assumption)+
  have p6: "ensures (installEmulator sh emulatorBuild) w1 (kept ?G S w0)" if h1: "holds ?G S w0 w1" for w1
  proof -
    have r1: "ensures (rmRF (androidHome w0 @ ''/emulator'')) w2 (kept ?G S w0)"
      if "holds ?G S w0 w2" for w2
      by (rule kept_rmRF[OF _ _ that]) (simp, erule rm[rotated], simp)
    have r2: "ensures (rmRF ''emulator.zip'') w2 (kept ?G S w0)" if "holds ?G S w0 w2" for w2
      by (rule kept_rmRF[OF _ _ that]) (simp, erule rm[rotated], simp)
    show ?thesis
      unfolding installEmulator_def
      apply (rule ensures_reading)
      apply (simp only: home[OF h1])
      apply (cases "truthy emulatorBuild")
       apply (simp_all only: if_True if_False)
       apply (intro kept_block_Cons kept_block_Nil lg ex r1 r2 h1 | assumption)+
      done
  qed
  have p7: "ensures (installSystemImage sh apiLevel target arch) w1 (kept ?G S w0)"
    if "holds ?G S w0 w1" for w1
    unfolding installSystemImage_def
    by (intro kept_block_Cons kept_block_Nil lg ex that | assumption)+
  have p8: "ensures (installNdk sh ndkVersion) w1 (kept ?G S w0)" if "holds ?G S w0 w1" for w1
    unfolding installNdk_def
    apply (rule kept_onlyIf[OF _ that])
    apply (intro kept_block_Cons kept_block_Nil lg ex that | assumption)+
    done
  have p9: "ensures (installCmake sh cmakeVersion) w1 (kept ?G S w0)" if "holds ?G S w0 w1" for w1
    unfolding installCmake_def
    apply (rule kept_onlyIf[OF _ that])
    apply (intro kept_block_Cons kept_block_Nil lg ex that | assumption)+
    done
  show ?thesis
    by (intro kept_block_Cons kept_block_Nil p4 p5 p6 p7 p8 p9 h | assumption)+
qed

text \<open>A tools step that ends normally leaves the tools directory there.\<close>

lemma installCmdlineTools_leaves:
  assumes abs: "startsWith (androidHome w) ''/''"
    and sh: "\<And>c e d. existsSync d (androidHome w @ ''/cmdline-tools'') \<Longrightarrow>
               existsSync (snd (sh c e d)) (androidHome w @ ''/cmdline-tools'')"
    and run: "installCmdlineTools sh w = (Val (), w')"
  shows "existsSync (disk w') (androidHome w @ ''/cmdline-tools'')"
proof (cases "existsSync (disk w) (androidHome w @ ''/cmdline-tools'')")
  case True
  then have "installCmdlineTools sh w = (Val (), w)"
    by (intro installCmdlineTools_present) (simp add: cmdlineToolsPathOf_def)
  with run True show ?thesis by simp
next
  case False
  let ?T = "androidHome w @ ''/cmdline-tools''"
  let ?S = "\<lambda>(e :: string \<Rightarrow> string option) (d :: disk). existsSync d ?T"
  let ?G = "\<lambda>_ :: event. True"
  from run False have
    "block [consoleLog ''Installing new cmdline-tools.'',
            mkdirP ?T,
            exec sh (''curl -fo commandlinetools.zip '' @ cmdlineToolsUrl (isOnMac w)),
            exec sh (''unzip -q commandlinetools.zip -d '' @ ?T),
            rmRF ''commandlinetools.zip'',
            addPath (?T @ ''/tools:'' @ ?T @ ''/tools/bin:'' @ androidHome w @ ''/platform-tools'')] w
       = (Val (), w')"
    by (simp add: installCmdlineTools_def reading_def Let_def onlyIf_def cmdlineToolsPathOf_def
        del: block.simps)
  then have "block [mkdirP ?T,
            exec sh (''curl -fo commandlinetools.zip '' @ cmdlineToolsUrl (isOnMac w)),
            exec sh (''unzip -q commandlinetools.zip -d '' @ ?T),
            rmRF ''commandlinetools.zip'',
            addPath (?T @ ''/tools:'' @ ?T @ ''/tools/bin:'' @ androidHome w @ ''/platform-tools'')]
           (emit (Log ''Installing new cmdline-tools.'') w) = (Val (), w')"
    by (simp add: bind_def consoleLog_def)
  then show ?thesis
  proof (cases rule: block_one)
    case (went w2)
    from went(1) have "existsSync (disk w2) ?T"
      by (auto simp: mkdirP_def Let_def emit_def existsSync_def underDirs_def list_all_iff
          split: if_splits)
    moreover from went(1) have "sameHost w2 w2" by (simp add: sameHost_def)
    ultimately have h2: "holds ?G ?S w2 w2" by (simp add: holds_def)
    have "ensures (block [exec sh (''curl -fo commandlinetools.zip '' @ cmdlineToolsUrl (isOnMac w)),
            exec sh (''unzip -q commandlinetools.zip -d '' @ ?T),
            rmRF ''commandlinetools.zip'',
            addPath (?T @ ''/tools:'' @ ?T @ ''/tools/bin:'' @ androidHome w @ ''/platform-tools'')]) w2
          (kept ?G ?S w2)"
      apply (rule kept_block_Cons)
       apply (rule kept_exec[OF _ _ h2], simp, erule sh)
      apply (rule kept_block_Cons)
       apply (rule kept_exec, simp, erule sh, assumption)
      apply (rule kept_block_Cons)
       apply (rule kept_rmRF, simp)
        apply (insert tools_stay_rm_zip[OF abs, of "''commandlinetools.zip''"], simp)[1]
       apply assumption
      apply (rule kept_block_Cons)
       apply (rule kept_addPath, simp, assumption, assumption)
      apply (erule kept_block_Nil)
      done
    from ensuresD[OF this went(2)] show ?thesis
      by (simp add: kept_def holds_def)
  next
    case stopped
    then show ?thesis by simp
  qed
qed

text \<open>A run that ends normally leaves the SDK root and the tools directory there.\<close>

lemma run_leaves_tools:
  assumes abs: "startsWith (androidHome w) ''/''"
    and sh: "\<And>c e d. existsSync d (androidHome w @ ''/cmdline-tools'') \<Longrightarrow>
               existsSync (snd (sh c e d)) (androidHome w @ ''/cmdline-tools'')"
    and run: "installAndroidSdk sh apiLevel target arch emulatorBuild ndkVersion cmakeVersion w = (Val (), w')"
  shows "sameHost w w' \<and> existsSync (disk w') (androidHome w)
         \<and> existsSync (disk w') (androidHome w @ ''/cmdline-tools'')"
proof -
  let ?T = "androidHome w @ ''/cmdline-tools''"
  let ?S = "\<lambda>(e :: string \<Rightarrow> string option) (d :: disk). existsSync d ?T"
  from abs have ne: "androidHome w \<noteq> []" by (auto simp: startsWith_def)
  with abs have t: "truthy (env w ''ANDROID_HOME'')"
    by (cases "env w ''ANDROID_HOME''") (auto simp: androidHome_def interp_def truthy_def startsWith_def)
  have "block ([ensureBaseSdk sh, normalizeOwnership sh]
          @ installCmdlineTools sh
          # [writeLicenseMarkers apiLevel, installPlatform sh apiLevel,
             installEmulator sh emulatorBuild, installSystemImage sh apiLevel target arch,
             installNdk sh ndkVersion, installCmake sh cmakeVersion]) w = (Val (), w')"
    using run_body[OF t run] by simp
  then show ?thesis
  proof (cases rule: block_split)
    case (went w2)
    have l2: "later w w2"
      using statements_later[where sh = sh and apiLevel = apiLevel and emulatorBuild = emulatorBuild
          and target = target and arch = arch and ndkVersion = ndkVersion
          and cmakeVersion = cmakeVersion, OF _ later_refl went(1)]
      by simp
    then have home2: "androidHome w2 = androidHome w" by (simp add: holds_def sameHost_home)
    from went(2) show ?thesis
    proof (cases rule: block_one)
      case (went w3)
      from installCmdlineTools_leaves[OF _ _ went(1)] abs sh home2
      have s3: "existsSync (disk w3) ?T" by simp
      have "later w2 w3"
        using statement_run[where m = "installCmdlineTools sh" and sh = sh and apiLevel = apiLevel
            and emulatorBuild = emulatorBuild and target = target and arch = arch
            and ndkVersion = ndkVersion and cmakeVersion = cmakeVersion, OF _ later_refl went(1)]
        by simp
      with l2 have l3: "sameHost w w3" by (auto simp: holds_def intro: sameHost_trans)
      then have home3: "androidHome w3 = androidHome w" by (simp add: sameHost_home)
      have h3: "holds (\<lambda>_. True) ?S w3 w3" using s3 by (simp add: holds_start)
      have "ensures
           (block [writeLicenseMarkers apiLevel, installPlatform sh apiLevel,
                   installEmulator sh emulatorBuild, installSystemImage sh apiLevel target arch,
                   installNdk sh ndkVersion, installCmake sh cmakeVersion]) w3
           (kept (\<lambda>_. True) ?S w3)"
      proof (rule after_tools_lasting[where S = ?S, OF h3])
        fix c e d assume "existsSync d ?T"
        then show "existsSync (snd (sh c e d)) ?T" by (rule sh)
      next
        fix p e d assume "p = androidHome w3 @ ''/emulator'' \<or> p = ''emulator.zip''" "existsSync d ?T"
        then show "existsSync (\<lambda>q. if q = p \<or> startsWith q (p @ ''/'') then None else d q) ?T"
          using tools_stay_rm_zip[OF abs, of p d] tools_stay_rm_emulator[OF abs, of d]
          by (auto simp: home3)
      next
        fix p c e d
        assume "p = sdkPreviewLicensePath (androidHome w3) \<or> p = sdkArmDbtLicensePath (androidHome w3)"
          "existsSync d ?T"
        then show "existsSync (d(p := Some (File c))) ?T"
          using tools_stay_write[OF abs, of p d c] by (simp add: home3)
      qed
      from ensuresD[OF this went(2)] have "holds (\<lambda>_. True) ?S w3 w'" by (simp add: kept_def)
      then have "sameHost w3 w'" "existsSync (disk w') ?T" by (simp_all add: holds_def)
      with l3 root_of_tools[OF _ ne] show ?thesis
        by (auto intro: sameHost_trans)
    next
      case stopped
      then show ?thesis by simp
    qed
  next
    case stopped
    then show ?thesis by simp
  qed
qed

subsection \<open>The events of a run, statement by statement\<close>

text \<open>The tools step: nothing if the directory is there, else its events in order, as far as it gets.\<close>

lemma installCmdlineTools_run:
  assumes run: "installCmdlineTools sh w = (r, w')"
  shows "(existsSync (disk w) (androidHome w @ ''/cmdline-tools'') \<longrightarrow> w' = w \<and> r = Val ())
         \<and> (\<not> existsSync (disk w) (androidHome w @ ''/cmdline-tools'') \<longrightarrow>
              (\<exists>k. 0 < k \<and> trace w' = trace w @ take k (toolsEvents (isOnMac w) (androidHome w))
                 \<and> (\<not> list_ex (isFile (disk w))
                        (ancestors (androidHome w @ ''/cmdline-tools'') @ [androidHome w @ ''/cmdline-tools''])
                    \<longrightarrow> 3 \<le> k)))"
proof (cases "existsSync (disk w) (androidHome w @ ''/cmdline-tools'')")
  case True
  then have "installCmdlineTools sh w = (Val (), w)"
    by (intro installCmdlineTools_present) (simp add: cmdlineToolsPathOf_def)
  with run True show ?thesis by simp
next
  case False
  let ?T = "androidHome w @ ''/cmdline-tools''"
  let ?w1 = "emit (Log ''Installing new cmdline-tools.'') w"
  let ?path = "?T @ ''/tools:'' @ ?T @ ''/tools/bin:'' @ androidHome w @ ''/platform-tools''"
  have tools: "toolsEvents (isOnMac w) (androidHome w) =
      [Log ''Installing new cmdline-tools.'', MkdirP ?T,
       Exec (''curl -fo commandlinetools.zip '' @ cmdlineToolsUrl (isOnMac w)),
       Exec (''unzip -q commandlinetools.zip -d '' @ ?T),
       RmRF ''commandlinetools.zip'', AddPath ?path]"
    by (simp add: toolsEvents_def cmdlineToolsPathOf_def)
  from run False have
    "block [consoleLog ''Installing new cmdline-tools.'',
            mkdirP ?T,
            exec sh (''curl -fo commandlinetools.zip '' @ cmdlineToolsUrl (isOnMac w)),
            exec sh (''unzip -q commandlinetools.zip -d '' @ ?T),
            rmRF ''commandlinetools.zip'',
            addPath ?path] w
       = (r, w')"
    by (simp add: installCmdlineTools_def reading_def Let_def onlyIf_def cmdlineToolsPathOf_def
        del: block.simps)
  then have blk: "block [mkdirP ?T,
            exec sh (''curl -fo commandlinetools.zip '' @ cmdlineToolsUrl (isOnMac w)),
            exec sh (''unzip -q commandlinetools.zip -d '' @ ?T),
            rmRF ''commandlinetools.zip'',
            addPath ?path] ?w1 = (r, w')"
    by (simp add: bind_def consoleLog_def)
  have "\<exists>k. 0 < k \<and> trace w' = trace w @ take k (toolsEvents (isOnMac w) (androidHome w))
          \<and> (\<not> list_ex (isFile (disk w)) (ancestors ?T @ [?T]) \<longrightarrow> 3 \<le> k)"
  proof (cases "list_ex (isFile (disk w)) (ancestors ?T @ [?T])")
    case True
    then have "mkdirP ?T ?w1 = (Thrown (ENOTDIR ?T), ?w1)"
      by (simp add: mkdirP_def emit_def)
    with blk have "w' = ?w1" by (simp add: bind_def)
    then have "trace w' = trace w @ take 1 (toolsEvents (isOnMac w) (androidHome w))"
      by (simp add: emit_def tools)
    with True show ?thesis by (intro exI[of _ 1]) simp
  next
    case nofile: False
    from nofile obtain w2 where
      w2: "mkdirP ?T ?w1 = (Val (), w2)"
        "trace w2 = trace w @ [Log ''Installing new cmdline-tools.'', MkdirP ?T]"
      by (simp add: mkdirP_def emit_def Let_def)
    from blk w2(1) have "block ([exec sh (''curl -fo commandlinetools.zip '' @ cmdlineToolsUrl (isOnMac w)),
            exec sh (''unzip -q commandlinetools.zip -d '' @ ?T),
            rmRF ''commandlinetools.zip''] @ [addPath ?path]) w2 = (r, w')"
      by (simp add: bind_def)
    moreover have ones: "list_all2 emitsOne
        [exec sh (''curl -fo commandlinetools.zip '' @ cmdlineToolsUrl (isOnMac w)),
         exec sh (''unzip -q commandlinetools.zip -d '' @ ?T),
         rmRF ''commandlinetools.zip'']
        [Exec (''curl -fo commandlinetools.zip '' @ cmdlineToolsUrl (isOnMac w)),
         Exec (''unzip -q commandlinetools.zip -d '' @ ?T),
         RmRF ''commandlinetools.zip'']"
      by (simp add: emitsOne_exec emitsOne_rmRF)
    ultimately show ?thesis
    proof (cases rule: block_split)
      case (went w5)
      from block_emitsOne[OF ones went(1)] have
        "trace w5 = trace w2 @ [Exec (''curl -fo commandlinetools.zip '' @ cmdlineToolsUrl (isOnMac w)),
         Exec (''unzip -q commandlinetools.zip -d '' @ ?T), RmRF ''commandlinetools.zip'']"
        by auto
      moreover from went(2) have "trace w' = trace w5 @ [AddPath ?path]"
        by (auto simp: bind_def addPath_def emit_def ret_def)
      ultimately have "trace w' = trace w @ take 6 (toolsEvents (isOnMac w) (androidHome w))"
        by (simp add: w2(2) tools)
      then show ?thesis by (intro exI[of _ 6]) simp
    next
      case stopped
      from block_emitsOne[OF ones stopped(1)] obtain j where
        j0: "j \<le> length [Exec (''curl -fo commandlinetools.zip '' @ cmdlineToolsUrl (isOnMac w)),
               Exec (''unzip -q commandlinetools.zip -d '' @ ?T), RmRF ''commandlinetools.zip'']"
          "[Exec (''curl -fo commandlinetools.zip '' @ cmdlineToolsUrl (isOnMac w)),
               Exec (''unzip -q commandlinetools.zip -d '' @ ?T), RmRF ''commandlinetools.zip''] \<noteq> []
           \<longrightarrow> 0 < j"
        and j3: "trace w' = trace w2 @ take j
              [Exec (''curl -fo commandlinetools.zip '' @ cmdlineToolsUrl (isOnMac w)),
               Exec (''unzip -q commandlinetools.zip -d '' @ ?T), RmRF ''commandlinetools.zip'']"
        by blast
      from j0 have j: "0 < j" "j \<le> 3" by simp_all
      note j = j j3
      from j(1,2) have "j = 1 \<or> j = 2 \<or> j = 3" by arith
      with j(3) have "trace w' = trace w @ take (2 + j) (toolsEvents (isOnMac w) (androidHome w))"
        by (auto simp: w2(2) tools)
      with j(1) show ?thesis by (intro exI[of _ "2 + j"]) simp
    qed
  qed
  with False show ?thesis by simp
qed

text \<open>
  The base step: with the SDK root there one line is logged; without, the events of
  \<^verbatim>\<open>installBaseSdk\<close> as far as it gets, then those of \<^verbatim>\<open>acceptLicenses\<close>.
\<close>

lemma ensureBaseSdk_shape:
  assumes run: "ensureBaseSdk sh w = (r, w')"
    and warm: "existsSync (disk w) (androidHome w) \<Longrightarrow>
         G (Log ''Using previous installation of base Android SDK, found on ${process.env.ANDROID_HOME}'')"
    and lic: "G (Log (''Accepting Android SDK licenses on '' @ androidHome w))"
      "\<And>x. G (Exec (''mkdir -p '' @ x))"
      "\<And>x. G (Exec (''touch '' @ x @ ''/repositories.cfg''))"
      "G (Exec (''sh -c '' @ bs @ dq @ ''yes '' @ sq @ ''y'' @ sq @ '' | '' @ androidHome w
                  @ ''/tools/bin/sdkmanager --licenses > /dev/null'' @ dq))"
  shows "\<exists>base rest. trace w' = trace w @ base @ rest \<and> list_all G rest
           \<and> (if existsSync (disk w) (androidHome w) then base = []
              else \<exists>k p. 0 < k
                     \<and> base = [Log (''Installing Android SDK on '' @ androidHome w),
                               ExportVariable ''ANDROID_SDK_HOME'' (sdkHomeOf (androidHome w))]
                              @ map Exec (take k (baseSdkCommands w)) @ p
                     \<and> (p = [] \<or> p = [ExportVariable ''PATH'' (exportedPath w)]))"
proof (cases "existsSync (disk w) (androidHome w)")
  case True
  from run ensureBaseSdk_warm[OF True] have
    "trace w' = trace w @ [] @ [Log ''Using previous installation of base Android SDK, found on ${process.env.ANDROID_HOME}'']"
    by (auto simp: emit_def)
  with True warm show ?thesis
    by (intro exI[of _ "[]"]
          exI[of _ "[Log ''Using previous installation of base Android SDK, found on ${process.env.ANDROID_HOME}'']"])
       simp
next
  case False
  obtain rb wb where b: "installBaseSdk sh w = (rb, wb)"
    by (cases "installBaseSdk sh w")
  from installBaseSdk_run[OF b] obtain k where
    rb: "rb \<noteq> Returned" "rb \<noteq> Val False" and k: "0 < k"
      "trace wb = trace w
         @ [Log (''Installing Android SDK on '' @ androidHome w),
            ExportVariable ''ANDROID_SDK_HOME'' (sdkHomeOf (androidHome w))]
         @ map Exec (take k (baseSdkCommands w))
         @ (if rb = Val True then [ExportVariable ''PATH'' (exportedPath w)] else [])"
    by blast
  let ?base = "[Log (''Installing Android SDK on '' @ androidHome w),
            ExportVariable ''ANDROID_SDK_HOME'' (sdkHomeOf (androidHome w))]
         @ map Exec (take k (baseSdkCommands w))
         @ (if rb = Val True then [ExportVariable ''PATH'' (exportedPath w)] else [])"
  have "ensures (installBaseSdk sh) w (keptTrue (\<lambda>_. True) (\<lambda>_ _. True) w)"
    by (rule installBaseSdk_kept[OF holds_start]) simp_all
  from ensuresD[OF this b] have "sameHost w wb" by (simp add: keptTrue_def holds_def)
  then have homeb: "androidHome wb = androidHome w" by (rule sameHost_home)
  have "\<exists>rest. trace w' = trace wb @ rest \<and> list_all G rest"
  proof (cases rb)
    case (Val installed)
    with rb(2) have inst: "installed" by (cases installed) simp_all
    obtain rl wl where l: "acceptLicenses sh wb = (rl, wl)"
      by (cases "acceptLicenses sh wb")
    have "ensures (acceptLicenses sh) wb (keptTrue G (\<lambda>_ _. True) wb)"
    proof (rule acceptLicenses_kept[where G = G, OF holds_start])
      show "G (Log (''Accepting Android SDK licenses on '' @ androidHome wb))"
        unfolding homeb by (rule lic(1))
      show "G (Exec (''mkdir -p '' @ x))" for x by (rule lic(2))
      show "G (Exec (''touch '' @ x @ ''/repositories.cfg''))" for x by (rule lic(3))
      show "G (Exec (''sh -c '' @ bs @ dq @ ''yes '' @ sq @ ''y'' @ sq @ '' | '' @ androidHome wb
                  @ ''/tools/bin/sdkmanager --licenses > /dev/null'' @ dq))"
        unfolding homeb by (rule lic(4))
    qed simp
    from ensuresD[OF this l] have kl: "holds G (\<lambda>_ _. True) wb wl" "rl \<noteq> Returned" "rl \<noteq> Val False"
      by (simp_all add: keptTrue_def)
    from run False b Val inst l kl(2,3) have "w' = wl"
      by (cases rl) (auto simp: ensureBaseSdk_def reading_def bind_def onlyIf_def ret_def)
    with kl(1) show ?thesis by (auto simp: holds_def)
  next
    case Returned
    with rb show ?thesis by simp
  next
    case (Thrown e)
    with run False b have "w' = wb"
      by (simp add: ensureBaseSdk_def reading_def bind_def)
    then show ?thesis by simp
  qed
  then obtain rest where "trace w' = trace w @ ?base @ rest" "list_all G rest"
    using k(2) by auto
  with False k(1) show ?thesis
    by (intro exI[of _ ?base] exI[of _ rest]) auto
qed

text \<open>The statements from the marker step on, from the ownership step on, and the first two.\<close>

lemma marks_late_kept:
  assumes h: "holds G (\<lambda>_ _. True) w0 w"
    and G: "list_all G (markerEvents (isOnMac w0) apiLevel (androidHome w0))"
      "list_all G (lateEvents apiLevel target arch emulatorBuild ndkVersion cmakeVersion
                     (isOnMac w0) (androidHome w0))"
  shows "ensures (block [writeLicenseMarkers apiLevel, installPlatform sh apiLevel,
                installEmulator sh emulatorBuild, installSystemImage sh apiLevel target arch,
                installNdk sh ndkVersion, installCmake sh cmakeVersion]) w
           (kept G (\<lambda>_ _. True) w0)"
proof (rule kept_block_Cons)
  from h have "androidHome w = androidHome w0" by (simp add: holds_def sameHost_home)
  with G(1) show "ensures (writeLicenseMarkers apiLevel) w (kept G (\<lambda>_ _. True) w0)"
    by (intro writeLicenseMarkers_kept[OF h diskFree_True]) (simp_all add: markerEvents_def)
next
  fix w1 assume "holds G (\<lambda>_ _. True) w0 w1"
  then show "ensures (block [installPlatform sh apiLevel,
                installEmulator sh emulatorBuild, installSystemImage sh apiLevel target arch,
                installNdk sh ndkVersion, installCmake sh cmakeVersion]) w1 (kept G (\<lambda>_ _. True) w0)"
    using diskFree_True
  proof (rule late_kept)
    fix e assume "e \<in> set (lateEvents apiLevel target arch emulatorBuild ndkVersion cmakeVersion
                     (isOnMac w0) (androidHome w0))"
    with G(2) show "G e" by (simp add: list_all_iff)
  qed
qed

lemma tail_kept:
  assumes h: "holds G (\<lambda>_ _. True) w0 w"
    and G: "list_all G (ownershipEvents (isOnMac w0) (inputs w0 ''fresh-sdk-installation'') (androidHome w0))"
      "list_all G (toolsEvents (isOnMac w0) (androidHome w0))"
      "list_all G (markerEvents (isOnMac w0) apiLevel (androidHome w0))"
      "list_all G (lateEvents apiLevel target arch emulatorBuild ndkVersion cmakeVersion
                     (isOnMac w0) (androidHome w0))"
  shows "ensures (block [normalizeOwnership sh, installCmdlineTools sh,
                writeLicenseMarkers apiLevel, installPlatform sh apiLevel,
                installEmulator sh emulatorBuild, installSystemImage sh apiLevel target arch,
                installNdk sh ndkVersion, installCmake sh cmakeVersion]) w
           (kept G (\<lambda>_ _. True) w0)"
proof -
  let ?S = "\<lambda>(_ :: string \<Rightarrow> string option) (_ :: disk). True"
  have p2: "ensures (normalizeOwnership sh) w1 (kept G ?S w0)" if h1: "holds G ?S w0 w1" for w1
  proof (rule normalizeOwnership_kept[OF h1])
    assume a: "\<not> isOnMac w1" "inputs w1 ''fresh-sdk-installation'' = []"
    from h1 have "androidHome w1 = androidHome w0" "isOnMac w1 = isOnMac w0" "inputs w1 = inputs w0"
      by (simp_all add: holds_def sameHost_def androidHome_def isOnMac_def)
    with a G(1) show "G (Exec (chownCommand (androidHome w1)))"
      by (simp add: ownershipEvents_def)
  qed simp
  have p3: "ensures (installCmdlineTools sh) w1 (kept G ?S w0)" if h1: "holds G ?S w0 w1" for w1
  proof -
    from h1 have "androidHome w1 = androidHome w0" "isOnMac w1 = isOnMac w0"
      by (simp_all add: holds_def sameHost_home sameHost_mac)
    with G(2) show ?thesis
      by (intro installCmdlineTools_kept[OF h1])
         (simp_all add: toolsEvents_def cmdlineToolsPathOf_def)
  qed
  show ?thesis
    apply (rule kept_block_Cons[OF p2[OF h]])
    apply (rule kept_block_Cons[OF p3], assumption)
    apply (erule marks_late_kept[OF _ G(3,4)])
    done
qed

lemma base_own_kept:
  assumes warm: "existsSync (disk w) (androidHome w) \<Longrightarrow>
         G (Log ''Using previous installation of base Android SDK, found on ${process.env.ANDROID_HOME}'')"
    and base: "\<not> existsSync (disk w) (androidHome w) \<Longrightarrow> list_all G (baseEvents (isOnMac w) (androidHome w))"
    and base': "\<And>e. \<not> existsSync (disk w) (androidHome w) \<Longrightarrow> baseEvent (androidHome w) e \<Longrightarrow> G e"
    and own: "list_all G (ownershipEvents (isOnMac w) (inputs w ''fresh-sdk-installation'') (androidHome w))"
  shows "ensures (block [ensureBaseSdk sh, normalizeOwnership sh]) w (kept G (\<lambda>_ _. True) w)"
proof -
  let ?S = "\<lambda>(_ :: string \<Rightarrow> string option) (_ :: disk). True"
  have h0: "holds G ?S w w" by (simp add: holds_start)
  have p1: "ensures (ensureBaseSdk sh) w (kept G ?S w)"
  proof (cases "existsSync (disk w) (androidHome w)")
    case True
    from holds_emit[OF h0 warm[OF True]] True show ?thesis
      by (simp add: ensures_def ensureBaseSdk_warm kept_def)
  next
    case False
    have l: "G e" if "e \<in> set (baseEvents (isOnMac w) (androidHome w))" for e
      using base[OF False] that by (simp add: list_all_iff)
    have b: "G e" if "baseEvent (androidHome w) e" for e
      using base'[OF False that] .
    show ?thesis
      apply (rule ensureBaseSdk_kept[where G = G, OF h0 _ l l b l l l b l b b l])
      apply (auto simp: False baseEvents_def baseEvent_def)
      done
  qed
  have p2: "ensures (normalizeOwnership sh) w1 (kept G ?S w)" if h: "holds G ?S w w1" for w1
  proof (rule normalizeOwnership_kept[OF h])
    assume a: "\<not> isOnMac w1" "inputs w1 ''fresh-sdk-installation'' = []"
    from h have "androidHome w1 = androidHome w" "isOnMac w1 = isOnMac w" "inputs w1 = inputs w"
      by (simp_all add: holds_def sameHost_def androidHome_def isOnMac_def)
    with a own show "G (Exec (chownCommand (androidHome w1)))"
      by (simp add: ownershipEvents_def)
  qed simp
  show ?thesis
    apply (rule kept_block_Cons[OF p1])
    apply (rule kept_block_Cons[OF p2], assumption)
    apply (erule kept_block_Nil)
    done
qed

text \<open>A run with \<^verbatim>\<open>ANDROID_HOME\<close> set: the events of \<^verbatim>\<open>installBaseSdk\<close>, then the others.\<close>

lemma run_after_base:
  assumes t: "truthy (env w ''ANDROID_HOME'')"
    and run: "installAndroidSdk sh apiLevel target arch emulatorBuild ndkVersion cmakeVersion w = (r, w')"
    and warm: "existsSync (disk w) (androidHome w) \<Longrightarrow>
         G (Log ''Using previous installation of base Android SDK, found on ${process.env.ANDROID_HOME}'')"
    and lic: "G (Log (''Accepting Android SDK licenses on '' @ androidHome w))"
      "\<And>x. G (Exec (''mkdir -p '' @ x))"
      "\<And>x. G (Exec (''touch '' @ x @ ''/repositories.cfg''))"
      "G (Exec (''sh -c '' @ bs @ dq @ ''yes '' @ sq @ ''y'' @ sq @ '' | '' @ androidHome w
                  @ ''/tools/bin/sdkmanager --licenses > /dev/null'' @ dq))"
    and G: "list_all G (ownershipEvents (isOnMac w) (inputs w ''fresh-sdk-installation'') (androidHome w))"
      "list_all G (toolsEvents (isOnMac w) (androidHome w))"
      "list_all G (markerEvents (isOnMac w) apiLevel (androidHome w))"
      "list_all G (lateEvents apiLevel target arch emulatorBuild ndkVersion cmakeVersion
                     (isOnMac w) (androidHome w))"
  shows "\<exists>base rest. trace w' = trace w @ base @ rest \<and> list_all G rest
           \<and> (if existsSync (disk w) (androidHome w) then base = []
              else \<exists>k p. 0 < k
                     \<and> base = [Log (''Installing Android SDK on '' @ androidHome w),
                               ExportVariable ''ANDROID_SDK_HOME'' (sdkHomeOf (androidHome w))]
                              @ map Exec (take k (baseSdkCommands w)) @ p
                     \<and> (p = [] \<or> p = [ExportVariable ''PATH'' (exportedPath w)]))"
proof -
  from run_body[OF t run] show ?thesis
  proof (cases rule: block_one)
    case (went wa)
    from ensureBaseSdk_shape[where G = G, OF went(1) warm lic] obtain base rest1 where
      a: "trace wa = trace w @ base @ rest1" "list_all G rest1"
        "if existsSync (disk w) (androidHome w) then base = []
              else \<exists>k p. 0 < k
                     \<and> base = [Log (''Installing Android SDK on '' @ androidHome w),
                               ExportVariable ''ANDROID_SDK_HOME'' (sdkHomeOf (androidHome w))]
                              @ map Exec (take k (baseSdkCommands w)) @ p
                     \<and> (p = [] \<or> p = [ExportVariable ''PATH'' (exportedPath w)])"
      by blast
    have "later w wa \<and> Val () \<noteq> (Returned :: unit outcome)"
      by (rule statement_run[where m = "ensureBaseSdk sh" and w = w and sh = sh and apiLevel = apiLevel
            and emulatorBuild = emulatorBuild and target = target and arch = arch
            and ndkVersion = ndkVersion and cmakeVersion = cmakeVersion,
            OF _ later_refl went(1)]) simp
    then have host: "androidHome wa = androidHome w" "isOnMac wa = isOnMac w" "inputs wa = inputs w"
      by (simp_all add: holds_def sameHost_def androidHome_def isOnMac_def)
    have "ensures (block [normalizeOwnership sh, installCmdlineTools sh,
                writeLicenseMarkers apiLevel, installPlatform sh apiLevel,
                installEmulator sh emulatorBuild, installSystemImage sh apiLevel target arch,
                installNdk sh ndkVersion, installCmake sh cmakeVersion]) wa
           (kept G (\<lambda>_ _. True) wa)"
      by (rule tail_kept[OF holds_start]) (simp_all add: host G)
    from ensuresD[OF this went(2)] obtain rest2 where "trace w' = trace wa @ rest2" "list_all G rest2"
      by (auto simp: kept_def holds_def)
    with a show ?thesis
      by (intro exI[of _ base] exI[of _ "rest1 @ rest2"]) simp
  next
    case stopped
    from ensureBaseSdk_shape[where G = G, OF stopped(1) warm lic] show ?thesis .
  qed
qed

text \<open>The same run: the events of the tools step, those before and those after.\<close>

lemma run_around_tools:
  assumes t: "truthy (env w ''ANDROID_HOME'')"
    and run: "installAndroidSdk sh apiLevel target arch emulatorBuild ndkVersion cmakeVersion w = (r, w')"
    and warm: "existsSync (disk w) (androidHome w) \<Longrightarrow>
         G (Log ''Using previous installation of base Android SDK, found on ${process.env.ANDROID_HOME}'')"
    and base: "\<not> existsSync (disk w) (androidHome w) \<Longrightarrow> list_all G (baseEvents (isOnMac w) (androidHome w))"
    and base': "\<And>e. \<not> existsSync (disk w) (androidHome w) \<Longrightarrow> baseEvent (androidHome w) e \<Longrightarrow> G e"
    and G: "list_all G (ownershipEvents (isOnMac w) (inputs w ''fresh-sdk-installation'') (androidHome w))"
      "list_all G (markerEvents (isOnMac w) apiLevel (androidHome w))"
      "list_all G (lateEvents apiLevel target arch emulatorBuild ndkVersion cmakeVersion
                     (isOnMac w) (androidHome w))"
  shows "\<exists>before k after.
           trace w' = trace w @ before @ take k (toolsEvents (isOnMac w) (androidHome w)) @ after
           \<and> list_all G before \<and> list_all G after"
proof -
  have pre: "ensures (block [ensureBaseSdk sh, normalizeOwnership sh]) w (kept G (\<lambda>_ _. True) w)"
    using warm base base' G(1) by (rule base_own_kept)
  have "block ([ensureBaseSdk sh, normalizeOwnership sh]
          @ installCmdlineTools sh
          # [writeLicenseMarkers apiLevel, installPlatform sh apiLevel,
             installEmulator sh emulatorBuild, installSystemImage sh apiLevel target arch,
             installNdk sh ndkVersion, installCmake sh cmakeVersion]) w = (r, w')"
    using run_body[OF t run] by simp
  then show ?thesis
  proof (cases rule: block_split)
    case (went w2)
    from ensuresD[OF pre went(1)] have h2: "holds G (\<lambda>_ _. True) w w2" by (simp add: kept_def)
    then obtain before where before: "trace w2 = trace w @ before" "list_all G before"
      by (auto simp: holds_def)
    from h2 have host2: "androidHome w2 = androidHome w" "isOnMac w2 = isOnMac w"
      by (simp_all add: holds_def sameHost_home sameHost_mac)
    have step: "\<exists>k. trace w3 = trace w2 @ take k (toolsEvents (isOnMac w) (androidHome w))"
      if "installCmdlineTools sh w2 = (r3, w3)" for r3 w3
    proof (cases "existsSync (disk w2) (androidHome w2 @ ''/cmdline-tools'')")
      case True
      with installCmdlineTools_run[OF that] have "w3 = w2" by simp
      then show ?thesis by (intro exI[of _ 0]) simp
    next
      case False
      with installCmdlineTools_run[OF that] show ?thesis
        unfolding host2 by blast
    qed
    from went(2) show ?thesis
    proof (cases rule: block_one)
      case (went w3)
      from step[OF went(1)] obtain k where
        k: "trace w3 = trace w2 @ take k (toolsEvents (isOnMac w) (androidHome w))" ..
      have "sameHost w2 w3"
        using statement_run[where m = "installCmdlineTools sh" and sh = sh and apiLevel = apiLevel
            and emulatorBuild = emulatorBuild and target = target and arch = arch
            and ndkVersion = ndkVersion and cmakeVersion = cmakeVersion, OF _ later_refl went(1)]
        by (simp add: holds_def)
      with host2 have host3: "androidHome w3 = androidHome w" "isOnMac w3 = isOnMac w"
        by (simp_all add: sameHost_home sameHost_mac)
      have "ensures (block [writeLicenseMarkers apiLevel, installPlatform sh apiLevel,
                installEmulator sh emulatorBuild, installSystemImage sh apiLevel target arch,
                installNdk sh ndkVersion, installCmake sh cmakeVersion]) w3
           (kept G (\<lambda>_ _. True) w3)"
        by (rule marks_late_kept[OF holds_start]) (simp_all add: host3 G)
      from ensuresD[OF this went(2)] obtain after where "trace w' = trace w3 @ after" "list_all G after"
        by (auto simp: kept_def holds_def)
      with before k show ?thesis
        by (intro exI[of _ before] exI[of _ k] exI[of _ after]) simp
    next
      case stopped
      from step[OF stopped(1)] obtain k where
        "trace w' = trace w2 @ take k (toolsEvents (isOnMac w) (androidHome w))" ..
      with before show ?thesis
        by (intro exI[of _ before] exI[of _ k] exI[of _ "[]"]) simp
    qed
  next
    case stopped
    from ensuresD[OF pre stopped(1)] obtain before where "trace w' = trace w @ before" "list_all G before"
      by (auto simp: kept_def holds_def)
    then show ?thesis
      by (intro exI[of _ before] exI[of _ 0] exI[of _ "[]"]) simp
  qed
qed

subsection \<open>Each download at most once in a run\<close>

lemma filter_take_length: "length (filter P (take k xs)) \<le> length (filter P xs)"
proof -
  have "filter P xs = filter P (take k xs) @ filter P (drop k xs)"
    by (simp flip: filter_append)
  then show ?thesis by simp
qed

lemma filter_none: "list_all (\<lambda>e. \<not> P e) xs \<Longrightarrow> filter P xs = []"
  by (simp add: list_all_iff)

lemma base_fetched_once:
  assumes run: "installAndroidSdk sh apiLevel target arch emulatorBuild ndkVersion cmakeVersion w = (r, w')"
    and pre: "pre = ''curl -L '' \<or> pre = ''unzip -q /tmp/android-sdk.zip''"
  shows "\<exists>evs. trace w' = trace w @ evs
           \<and> length (filter (\<lambda>e. \<exists>c. e = Exec c \<and> startsWith c pre) evs) \<le> 1"
proof (cases "truthy (env w ''ANDROID_HOME'')")
  case False
  from run run_falsy[OF False] have "trace w' = trace w @
      [SetFailed (''ANDROID_HOME is a required environment variable and is not set.'' @ nl
                  @ ''Please double check your host settings.'')]"
    by (auto simp: emit_def)
  then show ?thesis by simp
next
  case True
  let ?P = "\<lambda>e. \<exists>c. e = Exec c \<and> startsWith c pre"
  let ?G = "\<lambda>e. \<not> ?P e"
  have "\<exists>base rest. trace w' = trace w @ base @ rest \<and> list_all ?G rest
           \<and> (if existsSync (disk w) (androidHome w) then base = []
              else \<exists>k p. 0 < k
                     \<and> base = [Log (''Installing Android SDK on '' @ androidHome w),
                               ExportVariable ''ANDROID_SDK_HOME'' (sdkHomeOf (androidHome w))]
                              @ map Exec (take k (baseSdkCommands w)) @ p
                     \<and> (p = [] \<or> p = [ExportVariable ''PATH'' (exportedPath w)]))"
    using pre
    by (intro run_after_base[where G = ?G, OF True run])
       (auto simp: ownershipEvents_def chownCommand_def toolsEvents_def markerEvents_def
          lateEvents_def platformEvents_def emulatorEvents_def finalEvents_def sdkmanagerInstall_def)
  then obtain base rest where
    tr: "trace w' = trace w @ base @ rest" and rest: "list_all ?G rest"
    and base: "if existsSync (disk w) (androidHome w) then base = []
              else \<exists>k p. 0 < k
                     \<and> base = [Log (''Installing Android SDK on '' @ androidHome w),
                               ExportVariable ''ANDROID_SDK_HOME'' (sdkHomeOf (androidHome w))]
                              @ map Exec (take k (baseSdkCommands w)) @ p
                     \<and> (p = [] \<or> p = [ExportVariable ''PATH'' (exportedPath w)])"
    by blast
  have all: "length (filter (\<lambda>c. startsWith c pre) (baseSdkCommands w)) \<le> 1"
    using pre by (auto simp: baseSdkCommands_def backupCommand_def androidTmpPath_def)
  have "length (filter ?P base) \<le> 1"
  proof (cases "existsSync (disk w) (androidHome w)")
    case True
    with base show ?thesis by simp
  next
    case False
    with base obtain k p where
      b: "base = [Log (''Installing Android SDK on '' @ androidHome w),
                  ExportVariable ''ANDROID_SDK_HOME'' (sdkHomeOf (androidHome w))]
                 @ map Exec (take k (baseSdkCommands w)) @ p"
      and p: "p = [] \<or> p = [ExportVariable ''PATH'' (exportedPath w)]"
      by auto
    have "filter ?P (map Exec (take k (baseSdkCommands w)))
          = map Exec (filter (\<lambda>c. startsWith c pre) (take k (baseSdkCommands w)))"
      by (simp add: filter_map comp_def)
    then have "length (filter ?P (map Exec (take k (baseSdkCommands w)))) \<le> 1"
      using filter_take_length[of "\<lambda>c. startsWith c pre" k "baseSdkCommands w"] all by simp
    with b p show ?thesis by auto
  qed
  with filter_none[OF rest] tr show ?thesis
    by (intro exI[of _ "base @ rest"]) simp
qed

lemma tools_fetched_once:
  assumes run: "installAndroidSdk sh apiLevel target arch emulatorBuild ndkVersion cmakeVersion w = (r, w')"
    and pre: "pre = ''curl -fo commandlinetools.zip'' \<or> pre = ''unzip -q commandlinetools.zip''"
  shows "\<exists>evs. trace w' = trace w @ evs
           \<and> length (filter (\<lambda>e. \<exists>c. e = Exec c \<and> startsWith c pre) evs) \<le> 1"
proof (cases "truthy (env w ''ANDROID_HOME'')")
  case False
  from run run_falsy[OF False] have "trace w' = trace w @
      [SetFailed (''ANDROID_HOME is a required environment variable and is not set.'' @ nl
                  @ ''Please double check your host settings.'')]"
    by (auto simp: emit_def)
  then show ?thesis by simp
next
  case True
  let ?P = "\<lambda>e. \<exists>c. e = Exec c \<and> startsWith c pre"
  let ?G = "\<lambda>e. \<not> ?P e"
  have "\<exists>before k after.
           trace w' = trace w @ before @ take k (toolsEvents (isOnMac w) (androidHome w)) @ after
           \<and> list_all ?G before \<and> list_all ?G after"
    using pre
    by (intro run_around_tools[where G = ?G, OF True run])
       (auto simp: baseEvents_def baseEvent_def backupCommand_def androidTmpPath_def
          ownershipEvents_def chownCommand_def markerEvents_def
          lateEvents_def platformEvents_def emulatorEvents_def finalEvents_def sdkmanagerInstall_def)
  then obtain before k after where
    tr: "trace w' = trace w @ before @ take k (toolsEvents (isOnMac w) (androidHome w)) @ after"
    and G: "list_all ?G before" "list_all ?G after"
    by blast
  have "length (filter ?P (toolsEvents (isOnMac w) (androidHome w))) \<le> 1"
    using pre by (auto simp: toolsEvents_def)
  with filter_take_length[of ?P k "toolsEvents (isOnMac w) (androidHome w)"]
  have "length (filter ?P (take k (toolsEvents (isOnMac w) (androidHome w)))) \<le> 1"
    by simp
  with filter_none[OF G(1)] filter_none[OF G(2)] tr show ?thesis
    by (intro exI[of _ "before @ take k (toolsEvents (isOnMac w) (androidHome w)) @ after"]) simp
qed

subsection \<open>Downloads that are issued\<close>

lemma sdk_home_needs_root:
  assumes "existsSync d (sdkHomeOf h)" and "h \<noteq> []"
  shows "existsSync d h"
proof -
  have "ancestors (h @ ''/sdk_home'') = ancestors h @ [h]"
    using assms(2) by (simp add: ancestors_def dirsAbove_append)
  with assms(1) show ?thesis
    by (auto simp: existsSync_def underDirs_def sdkHomeOf_def)
qed

text \<open>Without the SDK root, the base SDK is asked for, from the URL of the platform.\<close>

lemma cold_fetches_base:
  assumes t: "truthy (env w ''ANDROID_HOME'')"
    and cold: "\<not> existsSync (disk w) (androidHome w)"
    and run: "installAndroidSdk sh apiLevel target arch emulatorBuild ndkVersion cmakeVersion w = (r, w')"
  shows "\<exists>evs. trace w' = trace w @ evs
           \<and> Exec (''curl -L '' @ baseSdkUrl (isOnMac w) @ '' -o '' @ androidTmpPath @ '' -s'') \<in> set evs"
proof -
  from t have ne: "androidHome w \<noteq> []"
    by (cases "env w ''ANDROID_HOME''") (auto simp: truthy_def androidHome_def interp_def)
  from cold sdk_home_needs_root[OF _ ne] have "\<not> existsSync (disk w) (sdkHomeOf (androidHome w))"
    by blast
  then have cmds: "baseSdkCommands w =
      (''curl -L '' @ baseSdkUrl (isOnMac w) @ '' -o '' @ androidTmpPath @ '' -s'')
      # [''unzip -q '' @ androidTmpPath @ '' -d '' @ androidHome w,
         ''rm '' @ androidTmpPath,
         ''mkdir -p '' @ sdkHomeOf (androidHome w)]"
    by (simp add: baseSdkCommands_def)
  have "\<exists>base rest. trace w' = trace w @ base @ rest \<and> list_all (\<lambda>_. True) rest
           \<and> (if existsSync (disk w) (androidHome w) then base = []
              else \<exists>k p. 0 < k
                     \<and> base = [Log (''Installing Android SDK on '' @ androidHome w),
                               ExportVariable ''ANDROID_SDK_HOME'' (sdkHomeOf (androidHome w))]
                              @ map Exec (take k (baseSdkCommands w)) @ p
                     \<and> (p = [] \<or> p = [ExportVariable ''PATH'' (exportedPath w)]))"
    by (rule run_after_base[OF t run]) (simp_all add: list_all_iff)
  then obtain base rest where
    tr0: "trace w' = trace w @ base @ rest"
    and shape: "if existsSync (disk w) (androidHome w) then base = []
              else \<exists>k p. 0 < k
                     \<and> base = [Log (''Installing Android SDK on '' @ androidHome w),
                               ExportVariable ''ANDROID_SDK_HOME'' (sdkHomeOf (androidHome w))]
                              @ map Exec (take k (baseSdkCommands w)) @ p
                     \<and> (p = [] \<or> p = [ExportVariable ''PATH'' (exportedPath w)])"
    by blast
  from shape cold obtain k p where
    k: "0 < k" and base: "base = [Log (''Installing Android SDK on '' @ androidHome w),
                               ExportVariable ''ANDROID_SDK_HOME'' (sdkHomeOf (androidHome w))]
                              @ map Exec (take k (baseSdkCommands w)) @ p"
    by (simp only: if_False) blast
  from tr0 base have
    tr: "trace w' = trace w @ ([Log (''Installing Android SDK on '' @ androidHome w),
                               ExportVariable ''ANDROID_SDK_HOME'' (sdkHomeOf (androidHome w))]
                              @ map Exec (take k (baseSdkCommands w)) @ p) @ rest"
    by simp
  from k obtain j where "k = Suc j" by (cases k) simp_all
  then have "Exec (''curl -L '' @ baseSdkUrl (isOnMac w) @ '' -o '' @ androidTmpPath @ '' -s'')
               \<in> set (map Exec (take k (baseSdkCommands w)))"
    by (simp add: cmds)
  with tr show ?thesis
    by (intro exI[of _ "([Log (''Installing Android SDK on '' @ androidHome w),
                               ExportVariable ''ANDROID_SDK_HOME'' (sdkHomeOf (androidHome w))]
                              @ map Exec (take k (baseSdkCommands w)) @ p) @ rest"]) simp
qed

text \<open>
  At the tools step without the tools directory, and no file where it is to be made, the
  command-line tools are asked for, from the URL of the platform.
\<close>

lemma absent_tools_fetched:
  assumes t: "truthy (env w ''ANDROID_HOME'')"
    and reach: "block [ensureBaseSdk sh, normalizeOwnership sh] w = (Val (), w2)"
    and absent: "\<not> existsSync (disk w2) (androidHome w @ ''/cmdline-tools'')"
    and nofile: "\<not> list_ex (isFile (disk w2))
                    (ancestors (androidHome w @ ''/cmdline-tools'') @ [androidHome w @ ''/cmdline-tools''])"
    and run: "installAndroidSdk sh apiLevel target arch emulatorBuild ndkVersion cmakeVersion w = (r, w')"
  shows "\<exists>evs. trace w' = trace w @ evs
           \<and> Exec (''curl -fo commandlinetools.zip '' @ cmdlineToolsUrl (isOnMac w)) \<in> set evs"
proof -
  have l2: "later w w2"
    using statements_later[where sh = sh and apiLevel = apiLevel and emulatorBuild = emulatorBuild
        and target = target and arch = arch and ndkVersion = ndkVersion
        and cmakeVersion = cmakeVersion, OF _ later_refl reach]
    by simp
  then obtain e2 where e2: "trace w2 = trace w @ e2" by (auto dest: later_trace)
  from l2 have host: "androidHome w2 = androidHome w" "isOnMac w2 = isOnMac w"
    by (simp_all add: holds_def sameHost_home sameHost_mac)
  have step: "\<exists>e3. trace w3 = trace w2 @ e3
                \<and> Exec (''curl -fo commandlinetools.zip '' @ cmdlineToolsUrl (isOnMac w)) \<in> set e3"
    if "installCmdlineTools sh w2 = (r3, w3)" for r3 w3
  proof -
    from installCmdlineTools_run[OF that] absent nofile obtain k where
      k: "3 \<le> k" "trace w3 = trace w2 @ take k (toolsEvents (isOnMac w) (androidHome w))"
      unfolding host by blast
    have "Exec (''curl -fo commandlinetools.zip '' @ cmdlineToolsUrl (isOnMac w))
            \<in> set (take 3 (toolsEvents (isOnMac w) (androidHome w)))"
      by (simp add: toolsEvents_def)
    with set_take_subset_set_take[OF k(1), of "toolsEvents (isOnMac w) (androidHome w)"] k(2)
    show ?thesis by blast
  qed
  have "block ([ensureBaseSdk sh, normalizeOwnership sh]
          @ installCmdlineTools sh
          # [writeLicenseMarkers apiLevel, installPlatform sh apiLevel,
             installEmulator sh emulatorBuild, installSystemImage sh apiLevel target arch,
             installNdk sh ndkVersion, installCmake sh cmakeVersion]) w = (r, w')"
    using run_body[OF t run] by simp
  then have "block (installCmdlineTools sh
          # [writeLicenseMarkers apiLevel, installPlatform sh apiLevel,
             installEmulator sh emulatorBuild, installSystemImage sh apiLevel target arch,
             installNdk sh ndkVersion, installCmake sh cmakeVersion]) w2 = (r, w')"
    using reach by (simp only: block_append) (simp add: bind_def)
  then show ?thesis
  proof (cases rule: block_one)
    case (went w3)
    from step[OF went(1)] obtain e3 where
      e3: "trace w3 = trace w2 @ e3"
        "Exec (''curl -fo commandlinetools.zip '' @ cmdlineToolsUrl (isOnMac w)) \<in> set e3"
      by blast
    have "later w3 w' \<and> r \<noteq> Returned"
      by (rule statements_later[where sh = sh and apiLevel = apiLevel
            and emulatorBuild = emulatorBuild and target = target and arch = arch
            and ndkVersion = ndkVersion and cmakeVersion = cmakeVersion,
            OF _ later_refl went(2)]) auto
    then obtain e4 where "trace w' = trace w3 @ e4" by (auto dest: later_trace)
    with e2 e3 show ?thesis
      by (intro exI[of _ "e2 @ e3 @ e4"]) simp
  next
    case stopped
    from step[OF stopped(1)] obtain e3 where
      "trace w' = trace w2 @ e3"
      "Exec (''curl -fo commandlinetools.zip '' @ cmdlineToolsUrl (isOnMac w)) \<in> set e3"
      by blast
    with e2 show ?thesis
      by (intro exI[of _ "e2 @ e3"]) simp
  qed
qed

section \<open>Hosts to run on\<close>

text \<open>A shell whose every command succeeds and leaves the disk as it is.\<close>

definition quietShell :: shell where
  "quietShell c e d = (0, d)"

text \<open>A Linux runner with the SDK root, its licenses directory and the command-line tools in place.\<close>

definition linuxRunner :: world where
  "linuxRunner =
     \<lparr>platform = ''linux'',
      env = [''ANDROID_HOME'' \<mapsto> ''/opt/sdk'', ''PATH'' \<mapsto> ''/usr/bin:/opt/Android/old/tools:/bin''],
      inputs = (\<lambda>_. []),
      disk = [''/opt'' \<mapsto> Dir, ''/opt/sdk'' \<mapsto> Dir, ''/opt/sdk/licenses'' \<mapsto> Dir,
              ''/opt/sdk/cmdline-tools'' \<mapsto> Dir],
      now = 1600000000000,
      trace = []\<rparr>"

text \<open>
  A macOS runner as the hosted ones are laid out: the SDK root is under a directory named
  \<^verbatim>\<open>Android\<close>, its tools are on the \<^verbatim>\<open>PATH\<close>, and an \<^verbatim>\<open>sdk_home\<close> is there from before.
\<close>

definition macRunner :: world where
  "macRunner =
     \<lparr>platform = ''darwin'',
      env = [''ANDROID_HOME'' \<mapsto> ''/Android/sdk'', ''PATH'' \<mapsto> ''/Android/sdk/tools:/usr/bin''],
      inputs = (\<lambda>_. []),
      disk = [''/Android'' \<mapsto> Dir, ''/Android/sdk'' \<mapsto> Dir, ''/Android/sdk/sdk_home'' \<mapsto> Dir,
              ''/Android/sdk/licenses'' \<mapsto> Dir, ''/Android/sdk/cmdline-tools'' \<mapsto> Dir],
      now = 1600000000000,
      trace = []\<rparr>"

text \<open>A Linux runner on which nothing of the SDK is there yet.\<close>

definition freshRunner :: world where
  "freshRunner =
     \<lparr>platform = ''linux'',
      env = [''ANDROID_HOME'' \<mapsto> ''/opt/sdk'', ''PATH'' \<mapsto> ''/usr/bin:/bin''],
      inputs = (\<lambda>_. []),
      disk = [''/opt'' \<mapsto> Dir],
      now = 1600000000000,
      trace = []\<rparr>"

text \<open>A shell on which every \<^verbatim>\<open>unzip\<close> fails, and that leaves the disk as it is.\<close>

definition unzipFails :: shell where
  "unzipFails c e d = (if startsWith c ''unzip'' then 1 else 0, d)"

text \<open>The same host with macOS on it.\<close>

definition freshMac :: world where
  "freshMac = freshRunner\<lparr>platform := ''darwin''\<rparr>"

text \<open>A Linux runner with the SDK root and the command-line tools, and no licenses directory.\<close>

definition bareRunner :: world where
  "bareRunner =
     \<lparr>platform = ''linux'',
      env = [''ANDROID_HOME'' \<mapsto> ''/opt/sdk'', ''PATH'' \<mapsto> ''/usr/bin:/bin''],
      inputs = (\<lambda>_. []),
      disk = [''/opt'' \<mapsto> Dir, ''/opt/sdk'' \<mapsto> Dir, ''/opt/sdk/cmdline-tools'' \<mapsto> Dir],
      now = 1600000000000,
      trace = []\<rparr>"

text \<open>With the quiet shell, a host that has the SDK root and the tools gets to the marker step.\<close>

lemma quiet_reach:
  assumes root: "existsSync (disk w) (androidHome w)"
    and tools: "existsSync (disk w) (androidHome w @ ''/cmdline-tools'')"
  shows "\<exists>w3. block [ensureBaseSdk quietShell, normalizeOwnership quietShell,
                     installCmdlineTools quietShell] w = (Val (), w3)
             \<and> disk w3 = disk w"
proof -
  let ?w1 = "emit (Log ''Using previous installation of base Android SDK, found on ${process.env.ANDROID_HOME}'') w"
  let ?w2 = "if \<not> isOnMac w \<and> inputs w ''fresh-sdk-installation'' = []
             then emit (Exec (chownCommand (androidHome w))) ?w1 else ?w1"
  have one: "ensureBaseSdk quietShell w = (Val (), ?w1)"
    by (rule ensureBaseSdk_warm[OF root])
  have two: "normalizeOwnership quietShell ?w1 = (Val (), ?w2)"
    by (simp add: normalizeOwnership_def reading_def onlyIf_def ret_def Let_def exec_def quietShell_def
        emit_def isOnMac_def androidHome_def)
  have "existsSync (disk ?w2) (cmdlineToolsPathOf (androidHome ?w2))"
    using tools by (simp add: emit_def androidHome_def cmdlineToolsPathOf_def)
  then have three: "installCmdlineTools quietShell ?w2 = (Val (), ?w2)"
    by (rule installCmdlineTools_present)
  have "block [ensureBaseSdk quietShell, normalizeOwnership quietShell,
               installCmdlineTools quietShell] w
        = block [normalizeOwnership quietShell, installCmdlineTools quietShell] ?w1"
    by (rule block_Cons_Val) (rule one)
  also have "\<dots> = block [installCmdlineTools quietShell] ?w2"
    by (rule block_Cons_Val) (rule two)
  also have "\<dots> = block [] ?w2"
    by (rule block_Cons_Val) (rule three)
  also have "\<dots> = (Val (), ?w2)"
    by (simp add: ret_def)
  finally have "block [ensureBaseSdk quietShell, normalizeOwnership quietShell,
               installCmdlineTools quietShell] w = (Val (), ?w2)" .
  moreover have "disk ?w2 = disk w" by (simp add: emit_def)
  ultimately show ?thesis by blast
qed

text \<open>With the quiet shell the first two statements end normally, and the disk is as before.\<close>

lemma quiet_base:
  "fst (ensureBaseSdk quietShell w) = Val () \<and> disk (snd (ensureBaseSdk quietShell w)) = disk w"
proof (cases "existsSync (disk w) (androidHome w)")
  case True
  then show ?thesis by (simp add: ensureBaseSdk_warm emit_def)
next
  case False
  then show ?thesis
    by (simp add: ensureBaseSdk_def installBaseSdk_def acceptLicenses_def reading_def Let_def bind_def
        onlyIf_def ret_def exec_def quietShell_def consoleLog_def exportVariable_def emit_def)
qed

lemma quiet_base_own:
  "\<exists>w2. block [ensureBaseSdk quietShell, normalizeOwnership quietShell] w = (Val (), w2)
        \<and> disk w2 = disk w"
proof -
  obtain w1 where one: "ensureBaseSdk quietShell w = (Val (), w1)" and d1: "disk w1 = disk w"
    using quiet_base[of w] by (cases "ensureBaseSdk quietShell w") auto
  have "fst (normalizeOwnership quietShell w1) = Val ()
        \<and> disk (snd (normalizeOwnership quietShell w1)) = disk w1"
    by (simp add: normalizeOwnership_def reading_def onlyIf_def ret_def Let_def exec_def quietShell_def
        emit_def)
  then obtain w2 where two: "normalizeOwnership quietShell w1 = (Val (), w2)" "disk w2 = disk w1"
    by (cases "normalizeOwnership quietShell w1") auto
  with one two d1 show ?thesis
    by (intro exI[of _ w2]) (simp add: bind_def ret_def)
qed

text \<open>With the quiet shell the statements after the marker step end normally.\<close>

lemma quiet_late:
  "fst (block [installPlatform quietShell apiLevel, installEmulator quietShell emulatorBuild,
               installSystemImage quietShell apiLevel target arch, installNdk quietShell ndkVersion,
               installCmake quietShell cmakeVersion] w) = Val ()"
  by (simp add: installPlatform_def installEmulator_def installSystemImage_def installNdk_def
      installCmake_def reading_def bind_def onlyIf_def ret_def exec_def quietShell_def consoleLog_def
      rmRF_def emit_def)

text \<open>Where \<^verbatim>\<open>unzip\<close> fails, a run without the SDK root ends at the second command.\<close>

lemma unzipFails_run:
  assumes t: "truthy (env w ''ANDROID_HOME'')"
    and cold: "\<not> existsSync (disk w) (androidHome w)"
  shows "installAndroidSdk unzipFails apiLevel target arch emulatorBuild ndkVersion cmakeVersion w =
           (Thrown (ProcessFailed (''unzip -q /tmp/android-sdk.zip -d '' @ androidHome w) 1),
            w\<lparr>env := (env w)(''ANDROID_SDK_HOME'' := Some (androidHome w @ ''/sdk_home'')),
              trace := trace w @
                [Log (''Installing Android SDK on '' @ androidHome w),
                 ExportVariable ''ANDROID_SDK_HOME'' (androidHome w @ ''/sdk_home''),
                 Exec (''curl -L '' @ baseSdkUrl (isOnMac w) @ '' -o /tmp/android-sdk.zip -s''),
                 Exec (''unzip -q /tmp/android-sdk.zip -d '' @ androidHome w)]\<rparr>)"
proof -
  from t have ne: "androidHome w \<noteq> []"
    by (cases "env w ''ANDROID_HOME''") (auto simp: truthy_def androidHome_def interp_def)
  from cold sdk_home_needs_root[OF _ ne] have nohome: "\<not> existsSync (disk w) (sdkHomeOf (androidHome w))"
    by blast
  have base: "ensureBaseSdk unzipFails w =
           (Thrown (ProcessFailed (''unzip -q /tmp/android-sdk.zip -d '' @ androidHome w) 1),
            w\<lparr>env := (env w)(''ANDROID_SDK_HOME'' := Some (androidHome w @ ''/sdk_home'')),
              trace := trace w @
                [Log (''Installing Android SDK on '' @ androidHome w),
                 ExportVariable ''ANDROID_SDK_HOME'' (androidHome w @ ''/sdk_home''),
                 Exec (''curl -L '' @ baseSdkUrl (isOnMac w) @ '' -o /tmp/android-sdk.zip -s''),
                 Exec (''unzip -q /tmp/android-sdk.zip -d '' @ androidHome w)]\<rparr>)"
    using cold nohome
    by (simp add: ensureBaseSdk_def installBaseSdk_def reading_def Let_def bind_def onlyIf_def ret_def
        exec_def unzipFails_def consoleLog_def exportVariable_def emit_def androidTmpPath_def
        sdkHomeOf_def androidHome_def isOnMac_def)
  show ?thesis
    unfolding installAndroidSdk_def
    by (simp add: asyncVoid_def
        block_Cons_Val[where m = requireAndroidHome and w = w, OF requireAndroidHome_truthy[OF t]]
        block_Cons_Thrown[where m = "ensureBaseSdk unzipFails" and w = w, OF base]
        del: block.simps)
qed

text \<open>
  With the quiet shell a run ends normally also without the SDK root, where no marker is
  tried (macOS, and an API level other than 30) and no file is where the tools directory
  is to be made.
\<close>

lemma quiet_tools:
  assumes "\<not> list_ex (isFile (disk w))
              (ancestors (androidHome w @ ''/cmdline-tools'') @ [androidHome w @ ''/cmdline-tools''])"
  shows "fst (installCmdlineTools quietShell w) = Val ()"
  using assms
  by (simp add: installCmdlineTools_def reading_def Let_def bind_def onlyIf_def ret_def exec_def
      quietShell_def consoleLog_def mkdirP_def rmRF_def addPath_def emit_def cmdlineToolsPathOf_def)

lemma quiet_cold_ok:
  assumes t: "truthy (env w ''ANDROID_HOME'')"
    and mac: "isOnMac w" and api: "apiLevel \<noteq> 30"
    and nofile: "\<not> list_ex (isFile (disk w))
              (ancestors (androidHome w @ ''/cmdline-tools'') @ [androidHome w @ ''/cmdline-tools''])"
  shows "fst (installAndroidSdk quietShell apiLevel target arch emulatorBuild ndkVersion cmakeVersion w)
           = Val ()"
proof -
  from quiet_base_own[of w] obtain w2 where
    w2: "block [ensureBaseSdk quietShell, normalizeOwnership quietShell] w = (Val (), w2)"
      "disk w2 = disk w"
    by blast
  have "later w w2"
    using statements_later[where sh = quietShell and apiLevel = apiLevel and emulatorBuild = emulatorBuild
        and target = target and arch = arch and ndkVersion = ndkVersion
        and cmakeVersion = cmakeVersion, OF _ later_refl w2(1)]
    by simp
  then have host2: "androidHome w2 = androidHome w" "isOnMac w2 = isOnMac w"
    by (simp_all add: holds_def sameHost_home sameHost_mac)
  from quiet_tools[of w2] nofile w2(2) host2 obtain w3 where
    w3: "installCmdlineTools quietShell w2 = (Val (), w3)"
    by (cases "installCmdlineTools quietShell w2") auto
  have "sameHost w2 w3"
    using statement_run[where m = "installCmdlineTools quietShell" and sh = quietShell
        and apiLevel = apiLevel and emulatorBuild = emulatorBuild and target = target and arch = arch
        and ndkVersion = ndkVersion and cmakeVersion = cmakeVersion, OF _ later_refl w3]
    by (simp add: holds_def)
  with host2 mac have "isOnMac w3" by (simp add: sameHost_mac)
  with api have w4: "writeLicenseMarkers apiLevel w3 = (Val (), w3)"
    by (simp add: writeLicenseMarkers_def reading_def Let_def bind_def onlyIf_def ret_def)
  have "block ([requireAndroidHome]
          @ [ensureBaseSdk quietShell, normalizeOwnership quietShell]
          @ [installCmdlineTools quietShell, writeLicenseMarkers apiLevel]
          @ [installPlatform quietShell apiLevel, installEmulator quietShell emulatorBuild,
             installSystemImage quietShell apiLevel target arch, installNdk quietShell ndkVersion,
             installCmake quietShell cmakeVersion]) w
        = block [installPlatform quietShell apiLevel, installEmulator quietShell emulatorBuild,
             installSystemImage quietShell apiLevel target arch, installNdk quietShell ndkVersion,
             installCmake quietShell cmakeVersion] w3"
    using requireAndroidHome_truthy[OF t] w2(1) w3 w4
    by (simp only: block_append) (simp add: bind_def ret_def)
  with quiet_late[of apiLevel emulatorBuild target arch ndkVersion cmakeVersion w3]
  show ?thesis
    by (cases "block [installPlatform quietShell apiLevel, installEmulator quietShell emulatorBuild,
             installSystemImage quietShell apiLevel target arch, installNdk quietShell ndkVersion,
             installCmake quietShell cmakeVersion] w3")
       (simp add: installAndroidSdk_def asyncVoid_def)
qed

subsection \<open>A run on a host that has the SDK root and the tools\<close>

lemma warm_no_download:
  assumes root: "existsSync (disk w) (androidHome w)"
    and tools: "existsSync (disk w) (androidHome w @ ''/cmdline-tools'')"
    and chown: "\<And>e d. existsSync d (androidHome w @ ''/cmdline-tools'') \<Longrightarrow>
                  existsSync (snd (sh (chownCommand (androidHome w)) e d)) (androidHome w @ ''/cmdline-tools'')"
    and run: "installAndroidSdk sh apiLevel target arch emulatorBuild ndkVersion cmakeVersion w = (r, w')"
  shows "\<exists>evs. trace w' = trace w @ evs
           \<and> (\<forall>c. Exec c \<in> set evs \<longrightarrow>
                 \<not> startsWith c ''curl -L '' \<and> \<not> startsWith c ''unzip -q /tmp/android-sdk.zip''
                 \<and> \<not> startsWith c ''curl -fo commandlinetools.zip''
                 \<and> \<not> startsWith c ''unzip -q commandlinetools.zip'')
           \<and> (\<forall>p. MkdirP p \<notin> set evs)"
proof (cases "truthy (env w ''ANDROID_HOME'')")
  case False
  from run run_falsy[OF False] have "trace w' = trace w @
      [SetFailed (''ANDROID_HOME is a required environment variable and is not set.'' @ nl
                  @ ''Please double check your host settings.'')]"
    by (auto simp: emit_def)
  then show ?thesis by simp
next
  case True
  let ?G = "\<lambda>e. (\<forall>c. e = Exec c \<longrightarrow>
                 \<not> startsWith c ''curl -L '' \<and> \<not> startsWith c ''unzip -q /tmp/android-sdk.zip''
                 \<and> \<not> startsWith c ''curl -fo commandlinetools.zip''
                 \<and> \<not> startsWith c ''unzip -q commandlinetools.zip'')
               \<and> (\<forall>p. e \<noteq> MkdirP p)"
  have "env w' = env w \<and> (\<exists>evs. trace w' = trace w @ evs \<and> list_all ?G evs)"
  proof (rule warm_run[OF True root _ _ _ _ _ _ run])
    show "existsSync (disk w) (cmdlineToolsPathOf (androidHome w))"
      using tools by (simp add: cmdlineToolsPathOf_def)
    show "existsSync (snd (sh (chownCommand (androidHome w)) e d)) (cmdlineToolsPathOf (androidHome w))"
      if "existsSync d (cmdlineToolsPathOf (androidHome w))" for e d
      using that chown[of d e] by (simp add: cmdlineToolsPathOf_def)
    show "?G (Exec (chownCommand (androidHome w)))"
      by (simp add: chownCommand_def)
    show "list_all ?G (markerEvents (isOnMac w) apiLevel (androidHome w))"
      by (simp add: markerEvents_def)
    show "list_all ?G (lateEvents apiLevel target arch emulatorBuild ndkVersion cmakeVersion
                     (isOnMac w) (androidHome w))"
      by (simp add: lateEvents_def platformEvents_def finalEvents_def emulatorEvents_def
          sdkmanagerInstall_def)
  qed simp
  then show ?thesis
    by (auto simp: list_all_iff)
qed

text \<open>Two runs in a row, the first one ending normally.\<close>

lemma second_run_downloads_nothing:
  assumes abs: "startsWith (androidHome w) ''/''"
    and sh: "\<And>c e d. existsSync d (androidHome w @ ''/cmdline-tools'') \<Longrightarrow>
               existsSync (snd (sh c e d)) (androidHome w @ ''/cmdline-tools'')"
    and first: "installAndroidSdk sh apiLevel0 target0 arch0 emulatorBuild0 ndkVersion0 cmakeVersion0 w
                  = (Val (), w1)"
    and second: "installAndroidSdk sh apiLevel target arch emulatorBuild ndkVersion cmakeVersion w1 = (r, w2)"
  shows "existsSync (disk w1) (androidHome w1)
         \<and> existsSync (disk w1) (androidHome w1 @ ''/cmdline-tools'')
         \<and> (\<exists>evs1 evs2. trace w1 = trace w @ evs1 \<and> trace w2 = trace w1 @ evs2
               \<and> (\<forall>c. Exec c \<in> set evs2 \<longrightarrow>
                 \<not> startsWith c ''curl -L '' \<and> \<not> startsWith c ''unzip -q /tmp/android-sdk.zip''
                 \<and> \<not> startsWith c ''curl -fo commandlinetools.zip''
                 \<and> \<not> startsWith c ''unzip -q commandlinetools.zip'')
           \<and> (\<forall>p. MkdirP p \<notin> set evs2)
               \<and> (\<forall>pre \<in> set [''curl -L '', ''unzip -q /tmp/android-sdk.zip'',
                             ''curl -fo commandlinetools.zip'', ''unzip -q commandlinetools.zip''].
                   length (filter (\<lambda>e. \<exists>c. e = Exec c \<and> startsWith c pre) (evs1 @ evs2)) \<le> 1))"
proof -
  from run_leaves_tools[OF abs sh first] have
    same: "sameHost w w1" and there: "existsSync (disk w1) (androidHome w)"
      "existsSync (disk w1) (androidHome w @ ''/cmdline-tools'')"
    by simp_all
  from same have home: "androidHome w1 = androidHome w" by (rule sameHost_home)
  have "\<exists>evs. trace w2 = trace w1 @ evs
           \<and> (\<forall>c. Exec c \<in> set evs \<longrightarrow>
                 \<not> startsWith c ''curl -L '' \<and> \<not> startsWith c ''unzip -q /tmp/android-sdk.zip''
                 \<and> \<not> startsWith c ''curl -fo commandlinetools.zip''
                 \<and> \<not> startsWith c ''unzip -q commandlinetools.zip'')
           \<and> (\<forall>p. MkdirP p \<notin> set evs)"
    by (rule warm_no_download[OF _ _ _ second]) (simp_all add: home there sh)
  then obtain evs2 where
    evs2: "trace w2 = trace w1 @ evs2"
    and none: "\<forall>c. Exec c \<in> set evs2 \<longrightarrow>
                 \<not> startsWith c ''curl -L '' \<and> \<not> startsWith c ''unzip -q /tmp/android-sdk.zip''
                 \<and> \<not> startsWith c ''curl -fo commandlinetools.zip''
                 \<and> \<not> startsWith c ''unzip -q commandlinetools.zip''"
    and nomk: "\<forall>p. MkdirP p \<notin> set evs2"
    by blast
  from later_trace[of w w1] same obtain evs1 where evs1: "trace w1 = trace w @ evs1"
  proof -
    have "ensures (installAndroidSdk sh apiLevel0 target0 arch0 emulatorBuild0 ndkVersion0 cmakeVersion0) w
            (\<lambda>_. holds (\<lambda>_. True) (\<lambda>_ _. True) w)"
      by (rule run_holds) simp
    from ensuresD[OF this first] that show thesis by (auto simp: holds_def)
  qed
  have once: "length (filter (\<lambda>e. \<exists>c. e = Exec c \<and> startsWith c pre) (evs1 @ evs2)) \<le> 1"
    if pre: "pre \<in> set [''curl -L '', ''unzip -q /tmp/android-sdk.zip'',
                         ''curl -fo commandlinetools.zip'', ''unzip -q commandlinetools.zip'']" for pre
  proof -
    from pre none have "filter (\<lambda>e. \<exists>c. e = Exec c \<and> startsWith c pre) evs2 = []"
      by (auto simp: filter_empty_conv)
    moreover have "length (filter (\<lambda>e. \<exists>c. e = Exec c \<and> startsWith c pre) evs1) \<le> 1"
    proof -
      from pre consider "pre = ''curl -L '' \<or> pre = ''unzip -q /tmp/android-sdk.zip''"
        | "pre = ''curl -fo commandlinetools.zip'' \<or> pre = ''unzip -q commandlinetools.zip''"
        by auto
      then obtain evs where "trace w1 = trace w @ evs"
        "length (filter (\<lambda>e. \<exists>c. e = Exec c \<and> startsWith c pre) evs) \<le> 1"
        using base_fetched_once[OF first, of pre] tools_fetched_once[OF first, of pre]
        by cases blast+
      with evs1 show ?thesis by simp
    qed
    ultimately show ?thesis by simp
  qed
  from there evs1 evs2 none nomk once show ?thesis
    unfolding home
    by (intro conjI exI[of _ evs1] exI[of _ evs2] ballI) simp_all
qed

section \<open>The claims\<close>

text \<open>
  C1 as stated has a run against it. The test before the second marker (line 69) does not
  look at the platform: on a macOS host with the licenses directory there and no marker in
  it, a run with API level 30 writes \<^verbatim>\<open>android-sdk-arm-dbt-license\<close>.
\<close>

theorem C1_mac_writes_arm_dbt_marker:
  "isOnMac macRunner
   \<and> WriteFile ''/Android/sdk/licenses/android-sdk-arm-dbt-license'' sdkArmDbtLicense
       \<in> set (trace (snd (installAndroidSdk quietShell 30 ''google_apis'' ''x86_64'' None None None
                             macRunner)))"
proof -
  have run: "installAndroidSdk quietShell 30 ''google_apis'' ''x86_64'' None None None macRunner =
      (fst (installAndroidSdk quietShell 30 ''google_apis'' ''x86_64'' None None None macRunner),
       snd (installAndroidSdk quietShell 30 ''google_apis'' ''x86_64'' None None None macRunner))"
    by simp
  have home: "androidHome macRunner = ''/Android/sdk''" "truthy (env macRunner ''ANDROID_HOME'')"
    and mac: "isOnMac macRunner"
    by (simp_all add: macRunner_def androidHome_def interp_def truthy_def isOnMac_def)
  have disk: "existsSync (disk macRunner) (androidHome macRunner)"
    "existsSync (disk macRunner) (androidHome macRunner @ ''/cmdline-tools'')"
    "existsSync (disk macRunner) (androidHome macRunner @ ''/licenses'')"
    "disk macRunner (androidHome macRunner @ ''/licenses'') = Some Dir"
    "\<not> existsSync (disk macRunner) (sdkArmDbtLicensePath (androidHome macRunner))"
    unfolding home
    by (simp_all add: macRunner_def existsSync_def underDirs_def ancestors_def sdkArmDbtLicensePath_def)
  from quiet_reach[OF disk(1,2)] obtain w3 where
    w3: "block [ensureBaseSdk quietShell, normalizeOwnership quietShell,
                installCmdlineTools quietShell] macRunner = (Val (), w3)"
      "disk w3 = disk macRunner"
    by blast
  from markers_in_run[OF home(2) w3(1) _ _ run] disk(3,4,5) w3(2) mac
  have "WriteFile (sdkArmDbtLicensePath (androidHome macRunner)) sdkArmDbtLicense
          \<in> set (trace (snd (installAndroidSdk quietShell 30 ''google_apis'' ''x86_64'' None None None
                             macRunner)))"
    by auto
  with mac show ?thesis
    by (simp add: home sdkArmDbtLicensePath_def)
qed

text \<open>
  C1, amended. Take a run that gets to the marker step (lines 62 to 71), in the state \<open>w3\<close>,
  with \<^verbatim>\<open><ANDROID_HOME>/licenses\<close> a directory that exists there. Then the files written in
  the whole run are these and no other, in this order: \<^verbatim>\<open>android-sdk-preview-license\<close> if
  the host is not macOS and the file is not there; \<^verbatim>\<open>android-sdk-arm-dbt-license\<close> if the
  API level is 30 and the file is not there, on any host. So off macOS with neither marker
  present API level 30 writes both and any other level only the first; on macOS the first
  is never written and the second is written exactly when the API level is 30.
\<close>

theorem C1_markers_written:
  assumes home: "truthy (env w ''ANDROID_HOME'')"
    and reach: "block [ensureBaseSdk sh, normalizeOwnership sh, installCmdlineTools sh] w = (Val (), w3)"
    and dir: "existsSync (disk w3) (androidHome w @ ''/licenses'')"
      "disk w3 (androidHome w @ ''/licenses'') = Some Dir"
    and run: "installAndroidSdk sh apiLevel target arch emulatorBuild ndkVersion cmakeVersion w = (r, w')"
  shows "\<exists>before after.
           trace w' = trace w @ before
             @ (if \<not> isOnMac w \<and> \<not> existsSync (disk w3) (sdkPreviewLicensePath (androidHome w))
                then [WriteFile (sdkPreviewLicensePath (androidHome w)) sdkPreviewLicense] else [])
             @ (if apiLevel = 30 \<and> \<not> existsSync (disk w3) (sdkArmDbtLicensePath (androidHome w))
                then [WriteFile (sdkArmDbtLicensePath (androidHome w)) sdkArmDbtLicense] else [])
             @ after
           \<and> (\<forall>p c. WriteFile p c \<notin> set before \<union> set after)"
  using home reach dir run by (rule markers_in_run)

theorem C1_markers_written_witness:
  "\<exists>before after.
     trace (snd (installAndroidSdk quietShell 30 ''google_apis'' ''x86_64'' None None None linuxRunner))
       = before
         @ [WriteFile ''/opt/sdk/licenses/android-sdk-preview-license'' sdkPreviewLicense,
            WriteFile ''/opt/sdk/licenses/android-sdk-arm-dbt-license'' sdkArmDbtLicense]
         @ after
     \<and> (\<forall>p c. WriteFile p c \<notin> set before \<union> set after)"
proof -
  have run: "installAndroidSdk quietShell 30 ''google_apis'' ''x86_64'' None None None linuxRunner =
      (fst (installAndroidSdk quietShell 30 ''google_apis'' ''x86_64'' None None None linuxRunner),
       snd (installAndroidSdk quietShell 30 ''google_apis'' ''x86_64'' None None None linuxRunner))"
    by simp
  have home: "androidHome linuxRunner = ''/opt/sdk''" "truthy (env linuxRunner ''ANDROID_HOME'')"
    and host: "\<not> isOnMac linuxRunner" "trace linuxRunner = []"
    by (simp_all add: linuxRunner_def androidHome_def interp_def truthy_def isOnMac_def)
  have disk: "existsSync (disk linuxRunner) (androidHome linuxRunner)"
    "existsSync (disk linuxRunner) (androidHome linuxRunner @ ''/cmdline-tools'')"
    "existsSync (disk linuxRunner) (androidHome linuxRunner @ ''/licenses'')"
    "disk linuxRunner (androidHome linuxRunner @ ''/licenses'') = Some Dir"
    "\<not> existsSync (disk linuxRunner) (sdkPreviewLicensePath (androidHome linuxRunner))"
    "\<not> existsSync (disk linuxRunner) (sdkArmDbtLicensePath (androidHome linuxRunner))"
    unfolding home
    by (simp_all add: linuxRunner_def existsSync_def underDirs_def ancestors_def
        sdkPreviewLicensePath_def sdkArmDbtLicensePath_def)
  from quiet_reach[OF disk(1,2)] obtain w3 where
    w3: "block [ensureBaseSdk quietShell, normalizeOwnership quietShell,
                installCmdlineTools quietShell] linuxRunner = (Val (), w3)"
      "disk w3 = disk linuxRunner"
    by blast
  from C1_markers_written[OF home(2) w3(1) _ _ run] disk(3,4,5,6) w3(2) host
  show ?thesis
    by (simp add: home sdkPreviewLicensePath_def sdkArmDbtLicensePath_def)
qed

text \<open>
  C2. When \<^verbatim>\<open>ANDROID_HOME\<close> is unset or empty, \<open>installAndroidSdk\<close> calls
  \<^verbatim>\<open>core.setFailed\<close> and returns: the outcome is a normal return, and the world is the
  one at the call but for that one event. So the disk and the environment are untouched,
  and no command was run.
\<close>

theorem C2_home_unset:
  assumes "env w ''ANDROID_HOME'' = None \<or> env w ''ANDROID_HOME'' = Some []"
  shows "installAndroidSdk sh apiLevel target arch emulatorBuild ndkVersion cmakeVersion w =
           (Val (),
            w\<lparr>trace := trace w @
               [SetFailed (''ANDROID_HOME is a required environment variable and is not set.'' @ nl
                           @ ''Please double check your host settings.'')]\<rparr>)"
proof -
  from assms have "\<not> truthy (env w ''ANDROID_HOME'')"
    by (auto simp: truthy_def)
  then show ?thesis
    unfolding installAndroidSdk_def
    by (simp add: asyncVoid_def emit_def
        block_Cons_Returned[where m = requireAndroidHome and w = w, OF requireAndroidHome_falsy]
        del: block.simps)
qed

theorem C2_home_unset_witness:
  "installAndroidSdk quietShell 30 ''google_apis'' ''x86_64'' None None None
      (linuxRunner\<lparr>env := Map.empty\<rparr>) =
     (Val (),
      linuxRunner\<lparr>env := Map.empty,
        trace := [SetFailed (''ANDROID_HOME is a required environment variable and is not set.'' @ nl
                            @ ''Please double check your host settings.'')]\<rparr>)"
  using C2_home_unset[of "linuxRunner\<lparr>env := Map.empty\<rparr>" quietShell 30 "''google_apis''" "''x86_64''" None None None]
  by (simp add: linuxRunner_def)

text \<open>
  C3. \<open>installBaseSdk\<close> and \<open>acceptLicenses\<close> end by answering \<^verbatim>\<open>true\<close> or by a
  rejection of \<^verbatim>\<open>exec.exec\<close>; they never answer \<^verbatim>\<open>false\<close>. So no run of
  \<open>installAndroidSdk\<close> reports either of the two failures its caller branches hold.
\<close>

theorem C3_helpers_answer_true:
  "(fst (installBaseSdk sh w) = Val True \<or> (\<exists>e. fst (installBaseSdk sh w) = Thrown e))
   \<and> (fst (acceptLicenses sh w) = Val True \<or> (\<exists>e. fst (acceptLicenses sh w) = Thrown e))
   \<and> (\<exists>evs. trace (snd (installAndroidSdk sh apiLevel target arch emulatorBuild ndkVersion cmakeVersion w))
               = trace w @ evs
             \<and> SetFailed ''Could not install base Android SDK.'' \<notin> set evs
             \<and> SetFailed ''Could not accept Android SDK licenses.'' \<notin> set evs)"
proof (intro conjI)
  have h0: "holds (\<lambda>_. True) (\<lambda>_ _. True) w w" by (simp add: holds_start)
  have "ensures (installBaseSdk sh) w (keptTrue (\<lambda>_. True) (\<lambda>_ _. True) w)"
    by (rule installBaseSdk_kept[OF h0]) simp_all
  then show "fst (installBaseSdk sh w) = Val True \<or> (\<exists>e. fst (installBaseSdk sh w) = Thrown e)"
    by (cases "fst (installBaseSdk sh w)") (auto simp: ensures_def keptTrue_def)
  have "ensures (acceptLicenses sh) w (keptTrue (\<lambda>_. True) (\<lambda>_ _. True) w)"
    by (rule acceptLicenses_kept[OF h0]) simp_all
  then show "fst (acceptLicenses sh w) = Val True \<or> (\<exists>e. fst (acceptLicenses sh w) = Thrown e)"
    by (cases "fst (acceptLicenses sh w)") (auto simp: ensures_def keptTrue_def)
  let ?G = "\<lambda>e. e \<noteq> SetFailed ''Could not install base Android SDK.''
               \<and> e \<noteq> SetFailed ''Could not accept Android SDK licenses.''"
  have "ensures (installAndroidSdk sh apiLevel target arch emulatorBuild ndkVersion cmakeVersion) w
          (\<lambda>_. holds ?G (\<lambda>_ _. True) w)"
    by (rule run_holds)
       (auto simp: mayEmit_def Let_def baseEvents_def baseEvent_def ownershipEvents_def toolsEvents_def
          markerEvents_def lateEvents_def platformEvents_def finalEvents_def emulatorEvents_def split: if_splits)
  then show "\<exists>evs. trace (snd (installAndroidSdk sh apiLevel target arch emulatorBuild ndkVersion cmakeVersion w))
               = trace w @ evs
             \<and> SetFailed ''Could not install base Android SDK.'' \<notin> set evs
             \<and> SetFailed ''Could not accept Android SDK licenses.'' \<notin> set evs"
    by (auto simp: ensures_def holds_def list_all_iff)
qed

text \<open>
  C4 as stated has runs against it. Take a host without the SDK root and a shell on which
  \<^verbatim>\<open>unzip\<close> fails: the first run is rejected after the download, the disk is as it was, and
  the second run downloads the base SDK again.
\<close>

theorem C4_rejected_run_downloads_again:
  "fst (installAndroidSdk unzipFails 30 ''google_apis'' ''x86_64'' None None None freshRunner)
     = Thrown (ProcessFailed ''unzip -q /tmp/android-sdk.zip -d /opt/sdk'' 1)
   \<and> disk (snd (installAndroidSdk unzipFails 30 ''google_apis'' ''x86_64'' None None None freshRunner))
       = disk freshRunner
   \<and> trace (snd (installAndroidSdk unzipFails 30 ''google_apis'' ''x86_64'' None None None
                   (snd (installAndroidSdk unzipFails 30 ''google_apis'' ''x86_64'' None None None
                           freshRunner))))
       = [Log ''Installing Android SDK on /opt/sdk'',
          ExportVariable ''ANDROID_SDK_HOME'' ''/opt/sdk/sdk_home'',
          Exec (''curl -L '' @ BASE_ANDROID_SDK_URL_LINUX @ '' -o /tmp/android-sdk.zip -s''),
          Exec ''unzip -q /tmp/android-sdk.zip -d /opt/sdk'',
          Log ''Installing Android SDK on /opt/sdk'',
          ExportVariable ''ANDROID_SDK_HOME'' ''/opt/sdk/sdk_home'',
          Exec (''curl -L '' @ BASE_ANDROID_SDK_URL_LINUX @ '' -o /tmp/android-sdk.zip -s''),
          Exec ''unzip -q /tmp/android-sdk.zip -d /opt/sdk'']"
proof -
  let ?w1 = "snd (installAndroidSdk unzipFails 30 ''google_apis'' ''x86_64'' None None None freshRunner)"
  have host: "truthy (env freshRunner ''ANDROID_HOME'')" "androidHome freshRunner = ''/opt/sdk''"
    "\<not> isOnMac freshRunner" "trace freshRunner = []"
    by (simp_all add: freshRunner_def truthy_def androidHome_def interp_def isOnMac_def)
  have cold: "\<not> existsSync (disk freshRunner) (androidHome freshRunner)"
    unfolding host(2) by (simp add: freshRunner_def existsSync_def)
  note one = unzipFails_run[OF host(1) cold, of 30 "''google_apis''" "''x86_64''" None None None]
  from one have w1: "disk ?w1 = disk freshRunner"
    "env ?w1 ''ANDROID_HOME'' = env freshRunner ''ANDROID_HOME''" "platform ?w1 = platform freshRunner"
    "trace ?w1 = [Log ''Installing Android SDK on /opt/sdk'',
          ExportVariable ''ANDROID_SDK_HOME'' ''/opt/sdk/sdk_home'',
          Exec (''curl -L '' @ BASE_ANDROID_SDK_URL_LINUX @ '' -o /tmp/android-sdk.zip -s''),
          Exec ''unzip -q /tmp/android-sdk.zip -d /opt/sdk'']"
    by (simp_all add: host baseSdkUrl_def)
  from w1(2,3) host have host1: "truthy (env ?w1 ''ANDROID_HOME'')" "androidHome ?w1 = ''/opt/sdk''"
    "\<not> isOnMac ?w1"
    by (simp_all add: androidHome_def isOnMac_def)
  from cold w1(1) host host1 have cold1: "\<not> existsSync (disk ?w1) (androidHome ?w1)"
    by simp
  note two = unzipFails_run[OF host1(1) cold1, of 30 "''google_apis''" "''x86_64''" None None None]
  from two have "trace (snd (installAndroidSdk unzipFails 30 ''google_apis'' ''x86_64'' None None None ?w1))
      = trace ?w1 @
          [Log (''Installing Android SDK on '' @ androidHome ?w1),
           ExportVariable ''ANDROID_SDK_HOME'' (androidHome ?w1 @ ''/sdk_home''),
           Exec (''curl -L '' @ baseSdkUrl (isOnMac ?w1) @ '' -o /tmp/android-sdk.zip -s''),
           Exec (''unzip -q /tmp/android-sdk.zip -d '' @ androidHome ?w1)]"
    by simp
  then have second: "trace (snd (installAndroidSdk unzipFails 30 ''google_apis'' ''x86_64'' None None None ?w1))
      = [Log ''Installing Android SDK on /opt/sdk'',
          ExportVariable ''ANDROID_SDK_HOME'' ''/opt/sdk/sdk_home'',
          Exec (''curl -L '' @ BASE_ANDROID_SDK_URL_LINUX @ '' -o /tmp/android-sdk.zip -s''),
          Exec ''unzip -q /tmp/android-sdk.zip -d /opt/sdk'',
          Log ''Installing Android SDK on /opt/sdk'',
          ExportVariable ''ANDROID_SDK_HOME'' ''/opt/sdk/sdk_home'',
          Exec (''curl -L '' @ BASE_ANDROID_SDK_URL_LINUX @ '' -o /tmp/android-sdk.zip -s''),
          Exec ''unzip -q /tmp/android-sdk.zip -d /opt/sdk'']"
    unfolding host1(2) w1(4) using host1(3) by (simp add: baseSdkUrl_def)
  from one have first: "fst (installAndroidSdk unzipFails 30 ''google_apis'' ''x86_64'' None None None freshRunner)
     = Thrown (ProcessFailed ''unzip -q /tmp/android-sdk.zip -d /opt/sdk'' 1)"
    by (simp add: host(2))
  from first w1(1) second show ?thesis
    by (intro conjI)
qed

text \<open>
  C4, amended. Take a run from a state \<open>w1\<close>. If the SDK root and its \<^verbatim>\<open>cmdline-tools\<close>
  directory exist in \<open>w1\<close>, and the \<^verbatim>\<open>chown\<close> command (when it is run) leaves the
  \<^verbatim>\<open>cmdline-tools\<close> directory in place, the run downloads and unpacks neither the base SDK
  nor the command-line tools, and creates no directory: both checks skip their steps. If
  \<open>w1\<close> is the state that a first run has left, that run having ended normally, with
  \<^verbatim>\<open>ANDROID_HOME\<close> an absolute path and no external command removing the \<^verbatim>\<open>cmdline-tools\<close>
  directory or one above it, then both directories do exist in \<open>w1\<close>, the run from \<open>w1\<close>
  downloads and unpacks nothing, and over the two runs each of the four commands (download
  and unpacking of the base SDK, download and unpacking of the command-line tools) is
  issued at most once.
\<close>

theorem C4_no_second_download:
  assumes second: "installAndroidSdk sh apiLevel target arch emulatorBuild ndkVersion cmakeVersion w1 = (r, w2)"
  shows "(existsSync (disk w1) (androidHome w1)
          \<and> existsSync (disk w1) (androidHome w1 @ ''/cmdline-tools'')
          \<and> (\<forall>e d. existsSync d (androidHome w1 @ ''/cmdline-tools'') \<longrightarrow>
                  existsSync (snd (sh (chownCommand (androidHome w1)) e d)) (androidHome w1 @ ''/cmdline-tools''))
          \<longrightarrow> (\<exists>evs. trace w2 = trace w1 @ evs
                 \<and> (\<forall>c. Exec c \<in> set evs \<longrightarrow>
                 \<not> startsWith c ''curl -L '' \<and> \<not> startsWith c ''unzip -q /tmp/android-sdk.zip''
                 \<and> \<not> startsWith c ''curl -fo commandlinetools.zip''
                 \<and> \<not> startsWith c ''unzip -q commandlinetools.zip'')
           \<and> (\<forall>p. MkdirP p \<notin> set evs)))
         \<and> (startsWith (androidHome w) ''/''
            \<and> (\<forall>c e d. existsSync d (androidHome w @ ''/cmdline-tools'') \<longrightarrow>
                   existsSync (snd (sh c e d)) (androidHome w @ ''/cmdline-tools''))
            \<and> installAndroidSdk sh apiLevel0 target0 arch0 emulatorBuild0 ndkVersion0 cmakeVersion0 w
                  = (Val (), w1)
            \<longrightarrow> existsSync (disk w1) (androidHome w1)
                \<and> existsSync (disk w1) (androidHome w1 @ ''/cmdline-tools'')
                \<and> (\<exists>evs1 evs2. trace w1 = trace w @ evs1 \<and> trace w2 = trace w1 @ evs2
                      \<and> (\<forall>c. Exec c \<in> set evs2 \<longrightarrow>
                 \<not> startsWith c ''curl -L '' \<and> \<not> startsWith c ''unzip -q /tmp/android-sdk.zip''
                 \<and> \<not> startsWith c ''curl -fo commandlinetools.zip''
                 \<and> \<not> startsWith c ''unzip -q commandlinetools.zip'')
           \<and> (\<forall>p. MkdirP p \<notin> set evs2)
                      \<and> (\<forall>pre \<in> set [''curl -L '', ''unzip -q /tmp/android-sdk.zip'',
                             ''curl -fo commandlinetools.zip'', ''unzip -q commandlinetools.zip''].
                   length (filter (\<lambda>e. \<exists>c. e = Exec c \<and> startsWith c pre) (evs1 @ evs2)) \<le> 1)))"
proof (intro conjI impI)
  assume a: "existsSync (disk w1) (androidHome w1)
          \<and> existsSync (disk w1) (androidHome w1 @ ''/cmdline-tools'')
          \<and> (\<forall>e d. existsSync d (androidHome w1 @ ''/cmdline-tools'') \<longrightarrow>
                  existsSync (snd (sh (chownCommand (androidHome w1)) e d)) (androidHome w1 @ ''/cmdline-tools''))"
  show "\<exists>evs. trace w2 = trace w1 @ evs
                 \<and> (\<forall>c. Exec c \<in> set evs \<longrightarrow>
                 \<not> startsWith c ''curl -L '' \<and> \<not> startsWith c ''unzip -q /tmp/android-sdk.zip''
                 \<and> \<not> startsWith c ''curl -fo commandlinetools.zip''
                 \<and> \<not> startsWith c ''unzip -q commandlinetools.zip'')
           \<and> (\<forall>p. MkdirP p \<notin> set evs)"
    by (rule warm_no_download[OF _ _ _ second]) (use a in simp_all)
next
  assume b: "startsWith (androidHome w) ''/''
            \<and> (\<forall>c e d. existsSync d (androidHome w @ ''/cmdline-tools'') \<longrightarrow>
                   existsSync (snd (sh c e d)) (androidHome w @ ''/cmdline-tools''))
            \<and> installAndroidSdk sh apiLevel0 target0 arch0 emulatorBuild0 ndkVersion0 cmakeVersion0 w
                  = (Val (), w1)"
  then have abs: "startsWith (androidHome w) ''/''"
    and sh: "\<And>c e d. existsSync d (androidHome w @ ''/cmdline-tools'') \<Longrightarrow>
               existsSync (snd (sh c e d)) (androidHome w @ ''/cmdline-tools'')"
    and first: "installAndroidSdk sh apiLevel0 target0 arch0 emulatorBuild0 ndkVersion0 cmakeVersion0 w
                  = (Val (), w1)"
    by simp_all
  note both = second_run_downloads_nothing[OF abs sh first second]
  from both show "existsSync (disk w1) (androidHome w1)" by (rule conjunct1)
  from both show "existsSync (disk w1) (androidHome w1 @ ''/cmdline-tools'')"
    by (rule conjunct1[OF conjunct2])
  from both show "\<exists>evs1 evs2. trace w1 = trace w @ evs1 \<and> trace w2 = trace w1 @ evs2
                      \<and> (\<forall>c. Exec c \<in> set evs2 \<longrightarrow>
                 \<not> startsWith c ''curl -L '' \<and> \<not> startsWith c ''unzip -q /tmp/android-sdk.zip''
                 \<and> \<not> startsWith c ''curl -fo commandlinetools.zip''
                 \<and> \<not> startsWith c ''unzip -q commandlinetools.zip'')
           \<and> (\<forall>p. MkdirP p \<notin> set evs2)
                      \<and> (\<forall>pre \<in> set [''curl -L '', ''unzip -q /tmp/android-sdk.zip'',
                             ''curl -fo commandlinetools.zip'', ''unzip -q commandlinetools.zip''].
                   length (filter (\<lambda>e. \<exists>c. e = Exec c \<and> startsWith c pre) (evs1 @ evs2)) \<le> 1)"
    by (rule conjunct2[OF conjunct2])
qed

theorem C4_no_second_download_witness:
  "\<not> existsSync (disk freshMac) ''/opt/sdk''
   \<and> fst (installAndroidSdk quietShell 29 ''google_apis'' ''x86_64'' None None None freshMac) = Val ()
   \<and> Exec (''curl -L '' @ BASE_ANDROID_SDK_URL_MAC @ '' -o /tmp/android-sdk.zip -s'')
       \<in> set (trace (snd (installAndroidSdk quietShell 29 ''google_apis'' ''x86_64'' None None None freshMac)))
   \<and> existsSync (disk (snd (installAndroidSdk quietShell 29 ''google_apis'' ''x86_64'' None None None freshMac))) ''/opt/sdk/cmdline-tools''
   \<and> (\<exists>evs2.
         trace (snd (installAndroidSdk quietShell 29 ''google_apis'' ''x86_64'' None None None
                       (snd (installAndroidSdk quietShell 29 ''google_apis'' ''x86_64'' None None None freshMac))))
           = trace (snd (installAndroidSdk quietShell 29 ''google_apis'' ''x86_64'' None None None freshMac)) @ evs2
         \<and> (\<forall>c. Exec c \<in> set evs2 \<longrightarrow>
                 \<not> startsWith c ''curl -L '' \<and> \<not> startsWith c ''unzip -q /tmp/android-sdk.zip''
                 \<and> \<not> startsWith c ''curl -fo commandlinetools.zip''
                 \<and> \<not> startsWith c ''unzip -q commandlinetools.zip'')
           \<and> (\<forall>p. MkdirP p \<notin> set evs2))"
proof -
  let ?w1 = "snd (installAndroidSdk quietShell 29 ''google_apis'' ''x86_64'' None None None freshMac)"
  have home: "androidHome freshMac = ''/opt/sdk''" "truthy (env freshMac ''ANDROID_HOME'')"
    "isOnMac freshMac" "trace freshMac = []"
    by (simp_all add: freshMac_def freshRunner_def androidHome_def interp_def truthy_def isOnMac_def)
  have disk: "\<not> existsSync (disk freshMac) (androidHome freshMac)"
    "\<not> list_ex (isFile (disk freshMac))
        (ancestors (androidHome freshMac @ ''/cmdline-tools'') @ [androidHome freshMac @ ''/cmdline-tools''])"
    unfolding home(1)
    by (simp_all add: freshMac_def freshRunner_def existsSync_def ancestors_def isFile_def)
  have ok: "fst (installAndroidSdk quietShell 29 ''google_apis'' ''x86_64'' None None None freshMac) = Val ()"
    by (rule quiet_cold_ok[OF home(2,3) _ disk(2)]) simp
  then have first: "installAndroidSdk quietShell 29 ''google_apis'' ''x86_64'' None None None freshMac = (Val (), ?w1)"
    by (simp add: prod_eq_iff)
  have second: "installAndroidSdk quietShell 29 ''google_apis'' ''x86_64'' None None None ?w1 =
      (fst (installAndroidSdk quietShell 29 ''google_apis'' ''x86_64'' None None None ?w1),
       snd (installAndroidSdk quietShell 29 ''google_apis'' ''x86_64'' None None None ?w1))"
    by simp
  have abs: "startsWith (androidHome freshMac) ''/''"
    by (simp add: home)
  have sh: "\<forall>c e d. existsSync d (androidHome freshMac @ ''/cmdline-tools'') \<longrightarrow>
               existsSync (snd (quietShell c e d)) (androidHome freshMac @ ''/cmdline-tools'')"
    by (simp add: quietShell_def)
  from cold_fetches_base[OF home(2) disk(1) first] home(3,4)
  have fetched: "Exec (''curl -L '' @ BASE_ANDROID_SDK_URL_MAC @ '' -o /tmp/android-sdk.zip -s'')
       \<in> set (trace ?w1)"
    by (auto simp: baseSdkUrl_def androidTmpPath_def)
  from C4_no_second_download[OF second, THEN conjunct2, rule_format, OF conjI[OF abs conjI[OF sh first]]]
  have "existsSync (disk ?w1) (androidHome ?w1 @ ''/cmdline-tools'')"
    and "\<exists>evs1 evs2. trace ?w1 = trace freshMac @ evs1
           \<and> trace (snd (installAndroidSdk quietShell 29 ''google_apis'' ''x86_64'' None None None ?w1))
               = trace ?w1 @ evs2
           \<and> (\<forall>c. Exec c \<in> set evs2 \<longrightarrow>
                 \<not> startsWith c ''curl -L '' \<and> \<not> startsWith c ''unzip -q /tmp/android-sdk.zip''
                 \<and> \<not> startsWith c ''curl -fo commandlinetools.zip''
                 \<and> \<not> startsWith c ''unzip -q commandlinetools.zip'')
           \<and> (\<forall>p. MkdirP p \<notin> set evs2)
           \<and> (\<forall>pre \<in> set [''curl -L '', ''unzip -q /tmp/android-sdk.zip'',
                             ''curl -fo commandlinetools.zip'', ''unzip -q commandlinetools.zip''].
                   length (filter (\<lambda>e. \<exists>c. e = Exec c \<and> startsWith c pre) (evs1 @ evs2)) \<le> 1)"
    by blast+
  moreover have "androidHome ?w1 = ''/opt/sdk''"
    using sameHost_home[OF conjunct1[OF run_leaves_tools[OF abs sh[rule_format] first]]] home(1)
    by simp
  ultimately obtain evs1 evs2 where
    there: "existsSync (disk ?w1) ''/opt/sdk/cmdline-tools''"
    and tr: "trace (snd (installAndroidSdk quietShell 29 ''google_apis'' ''x86_64'' None None None ?w1))
               = trace ?w1 @ evs2"
    and none: "\<forall>c. Exec c \<in> set evs2 \<longrightarrow>
                 \<not> startsWith c ''curl -L '' \<and> \<not> startsWith c ''unzip -q /tmp/android-sdk.zip''
                 \<and> \<not> startsWith c ''curl -fo commandlinetools.zip''
                 \<and> \<not> startsWith c ''unzip -q commandlinetools.zip''"
      "\<forall>p. MkdirP p \<notin> set evs2"
    by auto
  from disk(1) have cold: "\<not> existsSync (disk freshMac) ''/opt/sdk''"
    by (simp add: home(1))
  show ?thesis
    apply (intro conjI)
        apply (rule cold)
       apply (rule ok)
      apply (rule fetched)
     apply (rule there)
    apply (rule exI[of _ evs2])
    apply (intro conjI)
      apply (rule tr)
     apply (rule none(1))
    apply (rule none(2))
    done
qed

text \<open>
  C5. In every run, a command that downloads the base SDK or the command-line tools is the
  one with the URL of the platform (the macOS URL when \<^verbatim>\<open>process.platform\<close> is
  \<^verbatim>\<open>darwin\<close>, the Linux URL for any other value), and a \<^verbatim>\<open>chown\<close> command is only
  run off macOS with the input \<^verbatim>\<open>fresh-sdk-installation\<close> empty (the input as
  \<^verbatim>\<open>core.getInput\<close> gives it). Off macOS with that input empty, the \<^verbatim>\<open>chown\<close> command is
  run in every run that gets there: \<^verbatim>\<open>ANDROID_HOME\<close> is set, and the SDK root exists at the
  call or the run ends normally. And the downloads are issued: a run that does not find the
  SDK root asks for the base SDK at the URL of the platform; a run that gets to the tools
  step and does not find \<^verbatim>\<open>cmdline-tools\<close> there, with no file where the directory is to
  be made, asks for the command-line tools at the URL of the platform.
\<close>

theorem C5_platform_branching:
  assumes run: "installAndroidSdk sh apiLevel target arch emulatorBuild ndkVersion cmakeVersion w = (r, w')"
  shows "\<exists>evs. trace w' = trace w @ evs
           \<and> (\<forall>c. Exec c \<in> set evs \<longrightarrow>
                 (startsWith c ''curl -L '' \<longrightarrow>
                    c = ''curl -L ''
                        @ (if platform w = ''darwin'' then BASE_ANDROID_SDK_URL_MAC
                           else BASE_ANDROID_SDK_URL_LINUX)
                        @ '' -o /tmp/android-sdk.zip -s'')
               \<and> (startsWith c ''curl -fo commandlinetools.zip '' \<longrightarrow>
                    c = ''curl -fo commandlinetools.zip ''
                        @ (if platform w = ''darwin'' then CMDLINE_TOOLS_URL_MAC
                           else CMDLINE_TOOLS_URL_LINUX))
               \<and> (startsWith c (''sh -c '' @ bs @ dq @ ''sudo chown '') \<longrightarrow>
                    platform w \<noteq> ''darwin'' \<and> inputs w ''fresh-sdk-installation'' = []
                    \<and> c = chownCommand (androidHome w)))
           \<and> (platform w \<noteq> ''darwin'' \<and> inputs w ''fresh-sdk-installation'' = []
              \<and> truthy (env w ''ANDROID_HOME'')
              \<and> (existsSync (disk w) (androidHome w) \<or> r = Val ())
              \<longrightarrow> Exec (chownCommand (androidHome w)) \<in> set evs)
           \<and> (truthy (env w ''ANDROID_HOME'') \<and> \<not> existsSync (disk w) (androidHome w)
              \<longrightarrow> Exec (''curl -L ''
                          @ (if platform w = ''darwin'' then BASE_ANDROID_SDK_URL_MAC
                             else BASE_ANDROID_SDK_URL_LINUX)
                          @ '' -o /tmp/android-sdk.zip -s'') \<in> set evs)
           \<and> (\<forall>w2. truthy (env w ''ANDROID_HOME'')
                 \<and> block [ensureBaseSdk sh, normalizeOwnership sh] w = (Val (), w2)
                 \<and> \<not> existsSync (disk w2) (androidHome w @ ''/cmdline-tools'')
                 \<and> \<not> list_ex (isFile (disk w2))
                        (ancestors (androidHome w @ ''/cmdline-tools'') @ [androidHome w @ ''/cmdline-tools''])
              \<longrightarrow> Exec (''curl -fo commandlinetools.zip ''
                          @ (if platform w = ''darwin'' then CMDLINE_TOOLS_URL_MAC
                             else CMDLINE_TOOLS_URL_LINUX)) \<in> set evs)"
proof -
  let ?G = "\<lambda>e. \<forall>c. e = Exec c \<longrightarrow>
                 (startsWith c ''curl -L '' \<longrightarrow>
                    c = ''curl -L ''
                        @ (if platform w = ''darwin'' then BASE_ANDROID_SDK_URL_MAC
                           else BASE_ANDROID_SDK_URL_LINUX)
                        @ '' -o /tmp/android-sdk.zip -s'')
               \<and> (startsWith c ''curl -fo commandlinetools.zip '' \<longrightarrow>
                    c = ''curl -fo commandlinetools.zip ''
                        @ (if platform w = ''darwin'' then CMDLINE_TOOLS_URL_MAC
                           else CMDLINE_TOOLS_URL_LINUX))
               \<and> (startsWith c (''sh -c '' @ bs @ dq @ ''sudo chown '') \<longrightarrow>
                    platform w \<noteq> ''darwin'' \<and> inputs w ''fresh-sdk-installation'' = []
                    \<and> c = chownCommand (androidHome w))"
  have "\<exists>evs. trace w' = trace w @ evs \<and> list_all ?G evs"
  proof (rule run_holds_classes[OF _ _ _ _ _ _ _ _ run])
    show "list_all ?G (baseEvents (isOnMac w) (androidHome w))"
      by (simp add: baseEvents_def isOnMac_def baseSdkUrl_def androidTmpPath_def)
    show "?G e" if "baseEvent (androidHome w) e" for e
      using that by (auto simp: baseEvent_def backupCommand_def)
    show "list_all ?G (ownershipEvents (isOnMac w) (inputs w ''fresh-sdk-installation'') (androidHome w))"
      by (simp add: ownershipEvents_def isOnMac_def chownCommand_def)
    show "list_all ?G (toolsEvents (isOnMac w) (androidHome w))"
      by (simp add: toolsEvents_def isOnMac_def cmdlineToolsUrl_def)
    show "list_all ?G (markerEvents (isOnMac w) apiLevel (androidHome w))"
      by (simp add: markerEvents_def)
    show "list_all ?G (lateEvents apiLevel target arch emulatorBuild ndkVersion cmakeVersion
                       (isOnMac w) (androidHome w))"
      by (simp add: lateEvents_def platformEvents_def finalEvents_def emulatorEvents_def sdkmanagerInstall_def)
  qed simp_all
  then obtain evs where
    evs: "trace w' = trace w @ evs" and all: "list_all ?G evs"
    by blast
  have reach: "Exec (chownCommand (androidHome w)) \<in> set evs"
    if off: "platform w \<noteq> ''darwin''" and fresh: "inputs w ''fresh-sdk-installation'' = []"
      and t: "truthy (env w ''ANDROID_HOME'')"
      and there: "existsSync (disk w) (androidHome w) \<or> r = Val ()"
  proof -
    note body = run_body[OF t run]
    from body show ?thesis
    proof (cases rule: block_one)
      case (went w1)
      have "later w w1 \<and> Val () \<noteq> (Returned :: unit outcome)"
        by (rule statement_run[where m = "ensureBaseSdk sh" and w = w and sh = sh and apiLevel = apiLevel
              and emulatorBuild = emulatorBuild and target = target and arch = arch
              and ndkVersion = ndkVersion and cmakeVersion = cmakeVersion,
              OF _ later_refl went(1)]) simp
      then have l1: "later w w1" by simp
      then have same: "\<not> isOnMac w1" "inputs w1 ''fresh-sdk-installation'' = []"
        "androidHome w1 = androidHome w"
        using off fresh by (simp_all add: holds_def sameHost_def isOnMac_def androidHome_def)
      from l1 obtain e1 where e1: "trace w1 = trace w @ e1" by (auto dest: later_trace)
      have own: "trace (snd (normalizeOwnership sh w1)) = trace w1 @ [Exec (chownCommand (androidHome w))]"
        using same
        by (cases "sh (chownCommand (androidHome w)) (env w1) (disk w1)")
           (simp add: normalizeOwnership_def reading_def onlyIf_def exec_def emit_def Let_def)
      from went(2) show ?thesis
      proof (cases rule: block_one)
        case (went w2)
        have "later w2 w' \<and> r \<noteq> Returned"
          by (rule statements_later[where sh = sh and apiLevel = apiLevel
                and emulatorBuild = emulatorBuild and target = target and arch = arch
                and ndkVersion = ndkVersion and cmakeVersion = cmakeVersion,
                OF _ later_refl went(2)]) auto
        then obtain e3 where "trace w' = trace w2 @ e3" by (auto dest: later_trace)
        with own went(1) e1 evs show ?thesis by auto
      next
        case stopped
        with own e1 evs show ?thesis by auto
      qed
    next
      case stopped
      with there have "existsSync (disk w) (androidHome w)" by simp
      from ensureBaseSdk_warm[OF this] stopped show ?thesis by simp
    qed
  qed
  have urls: "(\<forall>c. Exec c \<in> set evs \<longrightarrow>
                 (startsWith c ''curl -L '' \<longrightarrow>
                    c = ''curl -L ''
                        @ (if platform w = ''darwin'' then BASE_ANDROID_SDK_URL_MAC
                           else BASE_ANDROID_SDK_URL_LINUX)
                        @ '' -o /tmp/android-sdk.zip -s'')
               \<and> (startsWith c ''curl -fo commandlinetools.zip '' \<longrightarrow>
                    c = ''curl -fo commandlinetools.zip ''
                        @ (if platform w = ''darwin'' then CMDLINE_TOOLS_URL_MAC
                           else CMDLINE_TOOLS_URL_LINUX))
               \<and> (startsWith c (''sh -c '' @ bs @ dq @ ''sudo chown '') \<longrightarrow>
                    platform w \<noteq> ''darwin'' \<and> inputs w ''fresh-sdk-installation'' = []
                    \<and> c = chownCommand (androidHome w)))"
    using all by (auto simp: list_all_iff)
  have chown: "(platform w \<noteq> ''darwin'' \<and> inputs w ''fresh-sdk-installation'' = []
              \<and> truthy (env w ''ANDROID_HOME'')
              \<and> (existsSync (disk w) (androidHome w) \<or> r = Val ())
              \<longrightarrow> Exec (chownCommand (androidHome w)) \<in> set evs)"
    using reach by blast
  have base: "(truthy (env w ''ANDROID_HOME'') \<and> \<not> existsSync (disk w) (androidHome w)
              \<longrightarrow> Exec (''curl -L ''
                          @ (if platform w = ''darwin'' then BASE_ANDROID_SDK_URL_MAC
                             else BASE_ANDROID_SDK_URL_LINUX)
                          @ '' -o /tmp/android-sdk.zip -s'') \<in> set evs)"
  proof (intro impI, elim conjE)
    assume "truthy (env w ''ANDROID_HOME'')" "\<not> existsSync (disk w) (androidHome w)"
    from cold_fetches_base[OF this run] evs show "Exec (''curl -L ''
                          @ (if platform w = ''darwin'' then BASE_ANDROID_SDK_URL_MAC
                             else BASE_ANDROID_SDK_URL_LINUX)
                          @ '' -o /tmp/android-sdk.zip -s'') \<in> set evs"
      by (auto simp: baseSdkUrl_def isOnMac_def androidTmpPath_def)
  qed
  have tools: "(\<forall>w2. truthy (env w ''ANDROID_HOME'')
                 \<and> block [ensureBaseSdk sh, normalizeOwnership sh] w = (Val (), w2)
                 \<and> \<not> existsSync (disk w2) (androidHome w @ ''/cmdline-tools'')
                 \<and> \<not> list_ex (isFile (disk w2))
                        (ancestors (androidHome w @ ''/cmdline-tools'') @ [androidHome w @ ''/cmdline-tools''])
              \<longrightarrow> Exec (''curl -fo commandlinetools.zip ''
                          @ (if platform w = ''darwin'' then CMDLINE_TOOLS_URL_MAC
                             else CMDLINE_TOOLS_URL_LINUX)) \<in> set evs)"
  proof (intro allI impI, elim conjE)
    fix w2
    assume "truthy (env w ''ANDROID_HOME'')"
      "block [ensureBaseSdk sh, normalizeOwnership sh] w = (Val (), w2)"
      "\<not> existsSync (disk w2) (androidHome w @ ''/cmdline-tools'')"
      "\<not> list_ex (isFile (disk w2))
          (ancestors (androidHome w @ ''/cmdline-tools'') @ [androidHome w @ ''/cmdline-tools''])"
    from absent_tools_fetched[OF this run] evs show "Exec (''curl -fo commandlinetools.zip ''
                          @ (if platform w = ''darwin'' then CMDLINE_TOOLS_URL_MAC
                             else CMDLINE_TOOLS_URL_LINUX)) \<in> set evs"
      by (auto simp: cmdlineToolsUrl_def isOnMac_def)
  qed
  show ?thesis
    by (intro exI[of _ evs] conjI) (rule evs urls chown base tools)+
qed

theorem C5_platform_branching_witness:
  "platform linuxRunner \<noteq> ''darwin'' \<and> inputs linuxRunner ''fresh-sdk-installation'' = []
   \<and> existsSync (disk linuxRunner) ''/opt/sdk''
   \<and> Exec (chownCommand ''/opt/sdk'')
       \<in> set (trace (snd (installAndroidSdk quietShell 30 ''google_apis'' ''x86_64'' None None None
                             linuxRunner)))
   \<and> platform freshRunner \<noteq> ''darwin'' \<and> \<not> existsSync (disk freshRunner) ''/opt/sdk''
   \<and> Exec (''curl -L '' @ BASE_ANDROID_SDK_URL_LINUX @ '' -o /tmp/android-sdk.zip -s'')
       \<in> set (trace (snd (installAndroidSdk quietShell 30 ''google_apis'' ''x86_64'' None None None
                             freshRunner)))
   \<and> Exec (''curl -fo commandlinetools.zip '' @ CMDLINE_TOOLS_URL_LINUX)
       \<in> set (trace (snd (installAndroidSdk quietShell 30 ''google_apis'' ''x86_64'' None None None
                             freshRunner)))"
proof -
  have run: "installAndroidSdk quietShell 30 ''google_apis'' ''x86_64'' None None None linuxRunner =
      (fst (installAndroidSdk quietShell 30 ''google_apis'' ''x86_64'' None None None linuxRunner),
       snd (installAndroidSdk quietShell 30 ''google_apis'' ''x86_64'' None None None linuxRunner))"
    by simp
  have host: "platform linuxRunner \<noteq> ''darwin''" "inputs linuxRunner ''fresh-sdk-installation'' = []"
    "truthy (env linuxRunner ''ANDROID_HOME'')" "androidHome linuxRunner = ''/opt/sdk''"
    "trace linuxRunner = []"
    by (simp_all add: linuxRunner_def truthy_def androidHome_def interp_def)
  have there: "existsSync (disk linuxRunner) ''/opt/sdk''"
    by (simp add: linuxRunner_def existsSync_def underDirs_def ancestors_def)
  from C5_platform_branching[OF run] host there
  have warm: "Exec (chownCommand ''/opt/sdk'')
       \<in> set (trace (snd (installAndroidSdk quietShell 30 ''google_apis'' ''x86_64'' None None None
                             linuxRunner)))"
    by auto
  have run': "installAndroidSdk quietShell 30 ''google_apis'' ''x86_64'' None None None freshRunner =
      (fst (installAndroidSdk quietShell 30 ''google_apis'' ''x86_64'' None None None freshRunner),
       snd (installAndroidSdk quietShell 30 ''google_apis'' ''x86_64'' None None None freshRunner))"
    by simp
  have host': "platform freshRunner \<noteq> ''darwin''"
    "truthy (env freshRunner ''ANDROID_HOME'')" "androidHome freshRunner = ''/opt/sdk''"
    "trace freshRunner = []"
    by (simp_all add: freshRunner_def truthy_def androidHome_def interp_def)
  have cold: "\<not> existsSync (disk freshRunner) ''/opt/sdk''"
    "\<not> existsSync (disk freshRunner) ''/opt/sdk/cmdline-tools''"
    "\<not> list_ex (isFile (disk freshRunner))
        (ancestors ''/opt/sdk/cmdline-tools'' @ [''/opt/sdk/cmdline-tools''])"
    by (simp_all add: freshRunner_def existsSync_def ancestors_def isFile_def)
  from quiet_base_own[of freshRunner] obtain w2 where
    w2: "block [ensureBaseSdk quietShell, normalizeOwnership quietShell] freshRunner = (Val (), w2)"
      "disk w2 = disk freshRunner"
    by blast
  from C5_platform_branching[OF run'] obtain evs where
    evs: "trace (snd (installAndroidSdk quietShell 30 ''google_apis'' ''x86_64'' None None None freshRunner))
            = trace freshRunner @ evs"
    and base: "truthy (env freshRunner ''ANDROID_HOME'')
                 \<and> \<not> existsSync (disk freshRunner) (androidHome freshRunner)
              \<longrightarrow> Exec (''curl -L ''
                          @ (if platform freshRunner = ''darwin'' then BASE_ANDROID_SDK_URL_MAC
                             else BASE_ANDROID_SDK_URL_LINUX)
                          @ '' -o /tmp/android-sdk.zip -s'') \<in> set evs"
    and tools: "\<forall>w2. truthy (env freshRunner ''ANDROID_HOME'')
                 \<and> block [ensureBaseSdk quietShell, normalizeOwnership quietShell] freshRunner = (Val (), w2)
                 \<and> \<not> existsSync (disk w2) (androidHome freshRunner @ ''/cmdline-tools'')
                 \<and> \<not> list_ex (isFile (disk w2))
                        (ancestors (androidHome freshRunner @ ''/cmdline-tools'')
                         @ [androidHome freshRunner @ ''/cmdline-tools''])
              \<longrightarrow> Exec (''curl -fo commandlinetools.zip ''
                          @ (if platform freshRunner = ''darwin'' then CMDLINE_TOOLS_URL_MAC
                             else CMDLINE_TOOLS_URL_LINUX)) \<in> set evs"
    by blast
  from base host' cold(1)
  have b: "Exec (''curl -L '' @ BASE_ANDROID_SDK_URL_LINUX @ '' -o /tmp/android-sdk.zip -s'') \<in> set evs"
    by simp
  from tools[rule_format, of w2] w2 host' cold(2,3)
  have t: "Exec (''curl -fo commandlinetools.zip '' @ CMDLINE_TOOLS_URL_LINUX) \<in> set evs"
    by simp
  from host(1,2) there warm host'(1) cold(1) b t evs host'(4) show ?thesis
    by simp
qed

text \<open>
  C6. With an emulator build given (a non-empty string): wherever the archive is unpacked,
  the directory \<^verbatim>\<open><ANDROID_HOME>/emulator\<close> was removed before; a download of
  \<^verbatim>\<open>emulator.zip\<close> is the one of \<^verbatim>\<open>emulator-<darwin|linux>-<build>.zip\<close> for the
  platform; the package manager is not asked for the emulator; and a run that ends normally
  has downloaded, removed and unpacked, in this order. Without a build: no emulator archive
  is downloaded or unpacked, and a run that ends normally has run
  \<^verbatim>\<open>sdkmanager --install emulator\<close>.
\<close>

theorem C6_emulator_selection:
  assumes run: "installAndroidSdk sh apiLevel target arch emulatorBuild ndkVersion cmakeVersion w = (r, w')"
  shows "\<exists>evs. trace w' = trace w @ evs
           \<and> (truthy emulatorBuild \<longrightarrow>
                 (\<forall>pre post. evs = pre @ Exec (''unzip -q emulator.zip -d '' @ androidHome w) # post
                    \<longrightarrow> RmRF (androidHome w @ ''/emulator'') \<in> set pre)
               \<and> (\<forall>c. Exec c \<in> set evs \<longrightarrow> startsWith c ''curl -fo emulator.zip'' \<longrightarrow>
                     c = ''curl -fo emulator.zip https://dl.google.com/android/repository/emulator-''
                         @ (if platform w = ''darwin'' then ''darwin'' else ''linux'')
                         @ ''-'' @ interp emulatorBuild @ ''.zip'')
               \<and> Exec (sdkmanagerInstall ''emulator'') \<notin> set evs
               \<and> (truthy (env w ''ANDROID_HOME'') \<and> r = Val () \<longrightarrow>
                    (\<exists>a b. evs = a @ [Exec (''curl -fo emulator.zip ''
                                            @ emulatorArchiveUrl (platform w = ''darwin'') (interp emulatorBuild)),
                                      RmRF (androidHome w @ ''/emulator''),
                                      Exec (''unzip -q emulator.zip -d '' @ androidHome w)] @ b)))
           \<and> (\<not> truthy emulatorBuild \<longrightarrow>
                 (\<forall>c. Exec c \<in> set evs \<longrightarrow>
                    \<not> startsWith c ''curl -fo emulator.zip'' \<and> \<not> startsWith c ''unzip -q emulator.zip'')
               \<and> (truthy (env w ''ANDROID_HOME'') \<and> r = Val () \<longrightarrow>
                    Exec (sdkmanagerInstall ''emulator'') \<in> set evs))"
proof (cases "truthy (env w ''ANDROID_HOME'')")
  case False
  from run run_falsy[OF False] have "trace w' = trace w @
      [SetFailed (''ANDROID_HOME is a required environment variable and is not set.'' @ nl
                  @ ''Please double check your host settings.'')]"
    by (auto simp: emit_def)
  with False show ?thesis by (auto simp: Cons_eq_append_conv)
next
  case True
  let ?G = "\<lambda>e. \<forall>c. e = Exec c \<longrightarrow>
              \<not> startsWith c ''curl -fo emulator.zip'' \<and> \<not> startsWith c ''unzip -q emulator.zip''
              \<and> c \<noteq> sdkmanagerInstall ''emulator''"
  let ?U = "Exec (''unzip -q emulator.zip -d '' @ androidHome w)"
  let ?R = "RmRF (androidHome w @ ''/emulator'')"
  let ?es = "emulatorEvents (isOnMac w) (androidHome w) emulatorBuild"
  have others: "ensures (block ms) w1 (kept ?G (\<lambda>_ _. True) w0)"
    if "set ms \<subseteq> set [ensureBaseSdk sh, normalizeOwnership sh, installCmdlineTools sh,
                     writeLicenseMarkers apiLevel, installPlatform sh apiLevel,
                     installSystemImage sh apiLevel target arch,
                     installNdk sh ndkVersion, installCmake sh cmakeVersion]"
      and "holds ?G (\<lambda>_ _. True) w0 w1" for ms w0 w1
  proof (rule others_kept[OF that])
    show "list_all ?G (baseEvents (isOnMac w0) (androidHome w0))"
      by (simp add: baseEvents_def sdkmanagerInstall_def androidTmpPath_def)
    show "?G e" if "baseEvent (androidHome w0) e" for e
      using that by (auto simp: baseEvent_def backupCommand_def sdkmanagerInstall_def)
    show "list_all ?G (ownershipEvents (isOnMac w0) (inputs w0 ''fresh-sdk-installation'') (androidHome w0))"
      by (simp add: ownershipEvents_def chownCommand_def sdkmanagerInstall_def)
    show "list_all ?G (toolsEvents (isOnMac w0) (androidHome w0))"
      by (simp add: toolsEvents_def sdkmanagerInstall_def)
    show "list_all ?G (markerEvents (isOnMac w0) apiLevel (androidHome w0))"
      by (simp add: markerEvents_def)
    show "list_all ?G (platformEvents apiLevel)"
      by (simp add: platformEvents_def sdkmanagerInstall_def)
    show "list_all ?G (finalEvents apiLevel target arch ndkVersion cmakeVersion)"
      by (simp add: finalEvents_def sdkmanagerInstall_def)
  qed simp
  have parts: "\<exists>e1 e6 e3 k. trace w' = trace w @ e1 @ e6 @ e3 \<and> list_all ?G e1 \<and> list_all ?G e3
                 \<and> e6 = take k ?es \<and> (r = Val () \<longrightarrow> e6 = ?es)"
  proof -
    have "block ([ensureBaseSdk sh, normalizeOwnership sh, installCmdlineTools sh,
                  writeLicenseMarkers apiLevel, installPlatform sh apiLevel]
                 @ [installEmulator sh emulatorBuild, installSystemImage sh apiLevel target arch,
                    installNdk sh ndkVersion, installCmake sh cmakeVersion]) w = (r, w')"
      using run_body[OF True run] by simp
    then show ?thesis
    proof (cases rule: block_split)
      case stopped
      from ensuresD[OF others[OF _ holds_start] stopped(1)]
      obtain e1 where "trace w' = trace w @ e1" "list_all ?G e1"
        by (auto simp: kept_def holds_def)
      with stopped(2) show ?thesis
        by (intro exI[of _ e1] exI[of _ "[]"] exI[of _ 0]) simp
    next
      case (went w1)
      from ensuresD[OF others[OF _ holds_start] went(1)]
      obtain e1 where e1: "trace w1 = trace w @ e1" "list_all ?G e1" and s1: "sameHost w w1"
        by (auto simp: kept_def holds_def)
      from s1 have same: "isOnMac w1 = isOnMac w" "androidHome w1 = androidHome w"
        by (simp_all add: sameHost_home sameHost_mac)
      from went(2) show ?thesis
      proof (cases rule: block_one)
        case (went w2)
        from installEmulator_run[OF went(1)] same
        have e6: "trace w2 = trace w1 @ ?es" by auto
        from ensuresD[OF others[OF _ holds_start] went(2)]
        obtain e3 where "trace w' = trace w2 @ e3" "list_all ?G e3"
          by (auto simp: kept_def holds_def)
        with e1 e6 show ?thesis
          by (intro exI[of _ e1] exI[of _ "?es"] exI[of _ e3] exI[of _ "length ?es"]) simp
      next
        case stopped
        from installEmulator_run[OF stopped(1)] same stopped(2)
        obtain k where "trace w' = trace w1 @ take k ?es" by auto
        with e1 stopped(2) show ?thesis
          by (intro exI[of _ e1] exI[of _ "take k ?es"] exI[of _ "[]"] exI[of _ k]) simp
      qed
    qed
  qed
  then obtain e1 e6 e3 k where
    evs: "trace w' = trace w @ e1 @ e6 @ e3" and g1: "list_all ?G e1" and g3: "list_all ?G e3"
    and e6: "e6 = take k ?es" and fin: "r = Val () \<Longrightarrow> e6 = ?es"
    by blast
  have sub: "set e6 \<subseteq> set ?es"
    unfolding e6 by (rule set_take_subset)
  have given: ?thesis if eb: "truthy emulatorBuild"
  proof -
    have es: "?es = [Log (''Installing emulator build '' @ interp emulatorBuild @ ''.''),
            Exec (''curl -fo emulator.zip '' @ emulatorArchiveUrl (isOnMac w) (interp emulatorBuild)),
            ?R, ?U, RmRF ''emulator.zip'']"
      using eb by (simp add: emulatorEvents_def)
    have order: "?R \<in> set pre" if "e1 @ e6 @ e3 = pre @ ?U # post" for pre post
    proof -
      from g1 g3 have "?U \<notin> set e1" "?U \<notin> set e3"
        by (auto simp: list_all_iff)
      with that obtain b1 b2 where "e6 = b1 @ ?U # b2" "pre = e1 @ b1"
        by (rule split_in_middle)
      moreover from this(1) e6 obtain c where "?es = b1 @ ?U # c"
        by (auto dest: take_split)
      then have "?R \<in> set b1"
        unfolding es by (auto simp: Cons_eq_append_conv)
      ultimately show ?thesis by simp
    qed
    have url: "c = ''curl -fo emulator.zip https://dl.google.com/android/repository/emulator-''
                         @ (if platform w = ''darwin'' then ''darwin'' else ''linux'')
                         @ ''-'' @ interp emulatorBuild @ ''.zip''"
      if "Exec c \<in> set (e1 @ e6 @ e3)" "startsWith c ''curl -fo emulator.zip''" for c
    proof -
      from that g1 g3 have "Exec c \<in> set e6" by (auto simp: list_all_iff)
      with sub have "Exec c \<in> set ?es" by blast
      with that(2) show ?thesis
        unfolding es by (auto simp: emulatorArchiveUrl_def isOnMac_def)
    qed
    have none: "Exec (sdkmanagerInstall ''emulator'') \<notin> set (e1 @ e6 @ e3)"
    proof
      assume "Exec (sdkmanagerInstall ''emulator'') \<in> set (e1 @ e6 @ e3)"
      with g1 g3 have "Exec (sdkmanagerInstall ''emulator'') \<in> set e6" by (auto simp: list_all_iff)
      with sub have "Exec (sdkmanagerInstall ''emulator'') \<in> set ?es" by blast
      then show False
        unfolding es by (simp add: sdkmanagerInstall_def)
    qed
    have reached: "\<exists>a b. e1 @ e6 @ e3 =
                     a @ [Exec (''curl -fo emulator.zip ''
                                @ emulatorArchiveUrl (platform w = ''darwin'') (interp emulatorBuild)),
                          ?R, ?U] @ b"
      if "r = Val ()"
    proof -
      from fin[OF that] es have "e1 @ e6 @ e3 =
          (e1 @ [Log (''Installing emulator build '' @ interp emulatorBuild @ ''.'')])
          @ [Exec (''curl -fo emulator.zip ''
                   @ emulatorArchiveUrl (platform w = ''darwin'') (interp emulatorBuild)), ?R, ?U]
          @ (RmRF ''emulator.zip'' # e3)"
        by (simp add: isOnMac_def)
      then show ?thesis by blast
    qed
    from evs eb order url none reached show ?thesis
      by (intro exI[of _ "e1 @ e6 @ e3"]) (simp only: simp_thms, blast)
  qed
  have latest: ?thesis if eb: "\<not> truthy emulatorBuild"
  proof -
    have es: "?es = [Log ''Installing latest emulator.'', Exec (sdkmanagerInstall ''emulator'')]"
      using eb by (simp add: emulatorEvents_def)
    have none: "\<not> startsWith c ''curl -fo emulator.zip'' \<and> \<not> startsWith c ''unzip -q emulator.zip''"
      if "Exec c \<in> set (e1 @ e6 @ e3)" for c
    proof (cases "Exec c \<in> set e6")
      case True
      with sub have "Exec c \<in> set ?es" by blast
      then show ?thesis
        unfolding es by (auto simp: sdkmanagerInstall_def)
    next
      case False
      with that g1 g3 show ?thesis by (auto simp: list_all_iff)
    qed
    have reached: "Exec (sdkmanagerInstall ''emulator'') \<in> set (e1 @ e6 @ e3)" if "r = Val ()"
      using fin[OF that] es by simp
    from evs eb none reached show ?thesis
      by (intro exI[of _ "e1 @ e6 @ e3"]) (simp only: simp_thms, blast)
  qed
  from given latest show ?thesis by blast
qed

theorem C6_emulator_selection_witness:
  "truthy (Some ''6885378'')
   \<and> Exec (sdkmanagerInstall ''emulator'')
       \<notin> set (trace (snd (installAndroidSdk quietShell 30 ''google_apis'' ''x86_64'' (Some ''6885378'')
                             None None linuxRunner)))"
proof -
  have run: "installAndroidSdk quietShell 30 ''google_apis'' ''x86_64'' (Some ''6885378'') None None linuxRunner =
      (fst (installAndroidSdk quietShell 30 ''google_apis'' ''x86_64'' (Some ''6885378'') None None linuxRunner),
       snd (installAndroidSdk quietShell 30 ''google_apis'' ''x86_64'' (Some ''6885378'') None None linuxRunner))"
    by simp
  have host: "truthy (Some ''6885378'')" "trace linuxRunner = []"
    by (simp_all add: linuxRunner_def truthy_def)
  from C6_emulator_selection[OF run] host show ?thesis
    by auto
qed

text \<open>
  C7 as stated has a run against it. On a host whose SDK root is itself under a directory
  named \<^verbatim>\<open>Android\<close> and whose \<^verbatim>\<open>PATH\<close> holds \<^verbatim>\<open><ANDROID_HOME>/tools\<close>, that segment of the prior
  \<^verbatim>\<open>PATH\<close> contains \<^verbatim>\<open>Android\<close> and is a segment of the exported \<^verbatim>\<open>PATH\<close> again: it is one of
  the five directories the function puts in front.
\<close>

theorem C7_android_segment_returns:
  "fst (installBaseSdk quietShell macRunner) = Val True
   \<and> env macRunner ''PATH'' = Some ''/Android/sdk/tools:/usr/bin''
   \<and> env (snd (installBaseSdk quietShell macRunner)) ''PATH''
       = Some ''/Android/sdk/bin:/Android/sdk/tools:/Android/sdk/tools/bin:/Android/sdk/platform-tools:/Android/sdk/platform-tools/bin:/usr/bin''
   \<and> includesStr ''/Android/sdk/tools'' ''Android''
   \<and> ''/Android/sdk/tools'' \<in> set (splitOn CHR '':'' ''/Android/sdk/tools:/usr/bin'')
   \<and> ''/Android/sdk/tools'' \<in> set (splitOn CHR '':''
         ''/Android/sdk/bin:/Android/sdk/tools:/Android/sdk/tools/bin:/Android/sdk/platform-tools:/Android/sdk/platform-tools/bin:/usr/bin'')"
proof -
  have home: "androidHome macRunner = ''/Android/sdk''"
    by (simp add: macRunner_def androidHome_def interp_def)
  have there: "existsSync (disk macRunner) ''/Android/sdk/sdk_home''"
    by (simp add: macRunner_def existsSync_def underDirs_def ancestors_def)
  have path: "env macRunner ''PATH'' = Some ''/Android/sdk/tools:/usr/bin''"
    by (simp add: macRunner_def)
  have ends: "fst (installBaseSdk quietShell macRunner) = Val True"
    by (simp add: installBaseSdk_def reading_def Let_def bind_def consoleLog_def exportVariable_def
        onlyIf_def exec_def quietShell_def emit_def ret_def home there sdkHomeOf_def)
  then have run: "installBaseSdk quietShell macRunner = (Val True, snd (installBaseSdk quietShell macRunner))"
    by (simp add: prod_eq_iff)
  from installBaseSdk_run[OF run]
  have "env (snd (installBaseSdk quietShell macRunner)) ''PATH'' = Some (exportedPath macRunner)"
    by simp
  moreover have "exportedPath macRunner =
      ''/Android/sdk/bin:/Android/sdk/tools:/Android/sdk/tools/bin:/Android/sdk/platform-tools:/Android/sdk/platform-tools/bin:/usr/bin''"
    by (simp add: exportedPath_def home path orElse_def extraPaths_def pathWithoutAndroid_def)
  ultimately show ?thesis
    using ends path by simp
qed

text \<open>
  C7, amended. After a run of \<^verbatim>\<open>installBaseSdk\<close> that ends normally, \<^verbatim>\<open>PATH\<close> is the five tool
  directories of the SDK root, a colon, and the segments of the prior \<^verbatim>\<open>PATH\<close> (the empty
  string if it was unset) that do not contain \<^verbatim>\<open>Android\<close>, in their order, joined by colons;
  that value is the last thing exported. Its segments are those of the five directories
  followed by the kept ones (a single empty segment when none is kept), and no segment
  after the five directories contains \<^verbatim>\<open>Android\<close>. A segment of the prior \<^verbatim>\<open>PATH\<close> with
  \<^verbatim>\<open>Android\<close> in it can therefore only come back as one of the five directories.
\<close>

theorem C7_path_rewritten:
  fixes w :: world
  defines "prior \<equiv> orElse (env w ''PATH'') []"
  defines "rest \<equiv> filter (\<lambda>entry. \<not> includesStr entry ''Android'') (splitOn CHR '':'' prior)"
  defines "h \<equiv> androidHome w"
  defines "exported \<equiv> h @ ''/bin:'' @ h @ ''/tools:'' @ h @ ''/tools/bin:'' @ h @ ''/platform-tools:''
                        @ h @ ''/platform-tools/bin'' @ '':'' @ joinWith '':'' rest"
  assumes run: "installBaseSdk sh w = (Val b, w')"
  shows "env w' ''PATH'' = Some exported
         \<and> (\<exists>evs. trace w' = trace w @ evs @ [ExportVariable ''PATH'' exported])
         \<and> splitOn CHR '':'' exported
             = splitOn CHR '':'' (h @ ''/bin'') @ splitOn CHR '':'' (h @ ''/tools'')
               @ splitOn CHR '':'' (h @ ''/tools/bin'') @ splitOn CHR '':'' (h @ ''/platform-tools'')
               @ splitOn CHR '':'' (h @ ''/platform-tools/bin'')
               @ (if rest = [] then [[]] else rest)
         \<and> (\<forall>s \<in> set (if rest = [] then [[]] else rest). \<not> includesStr s ''Android'')
         \<and> (\<forall>s \<in> set rest. s \<in> set (splitOn CHR '':'' prior))"
proof -
  from installBaseSdk_run[OF run] have b: "b" by (cases b) simp_all
  have ex: "exportedPath w = exported"
    by (simp add: exportedPath_def exported_def extraPaths_def pathWithoutAndroid_def rest_def
        prior_def h_def)
  from installBaseSdk_run[OF run] b have "env w' ''PATH'' = Some exported"
    by (simp add: ex)
  moreover from installBaseSdk_run[OF run] b
  have "\<exists>evs. trace w' = trace w @ evs @ [ExportVariable ''PATH'' exported]"
    by (auto simp: ex)
  moreover have "splitOn CHR '':'' (joinWith '':'' rest) = (if rest = [] then [[]] else rest)"
    using pathWithoutAndroid_segments[of prior]
    by (simp add: pathWithoutAndroid_def rest_def)
  then have "splitOn CHR '':'' exported
             = splitOn CHR '':'' (h @ ''/bin'') @ splitOn CHR '':'' (h @ ''/tools'')
               @ splitOn CHR '':'' (h @ ''/tools/bin'') @ splitOn CHR '':'' (h @ ''/platform-tools'')
               @ splitOn CHR '':'' (h @ ''/platform-tools/bin'')
               @ (if rest = [] then [[]] else rest)"
    using splitOn_append[of "CHR '':''" "h @ ''/bin''"]
      splitOn_append[of "CHR '':''" "h @ ''/tools''"]
      splitOn_append[of "CHR '':''" "h @ ''/tools/bin''"]
      splitOn_append[of "CHR '':''" "h @ ''/platform-tools''"]
      splitOn_append[of "CHR '':''" "h @ ''/platform-tools/bin''"]
    by (simp add: exported_def)
  moreover have "\<forall>s \<in> set (if rest = [] then [[]] else rest). \<not> includesStr s ''Android''"
    by (simp add: rest_def)
  moreover have "\<forall>s \<in> set rest. s \<in> set (splitOn CHR '':'' prior)"
    by (simp add: rest_def)
  ultimately show ?thesis by blast
qed

theorem C7_path_rewritten_witness:
  "env (snd (installBaseSdk quietShell linuxRunner)) ''PATH''
     = Some ''/opt/sdk/bin:/opt/sdk/tools:/opt/sdk/tools/bin:/opt/sdk/platform-tools:/opt/sdk/platform-tools/bin:/usr/bin:/bin''"
proof -
  have home: "androidHome linuxRunner = ''/opt/sdk''"
    by (simp add: linuxRunner_def androidHome_def interp_def)
  have gone: "\<not> existsSync (disk linuxRunner) ''/opt/sdk/sdk_home''"
    by (simp add: linuxRunner_def existsSync_def)
  have path: "orElse (env linuxRunner ''PATH'') [] = ''/usr/bin:/opt/Android/old/tools:/bin''"
    by (simp add: linuxRunner_def orElse_def)
  have "fst (installBaseSdk quietShell linuxRunner) = Val True"
    by (simp add: installBaseSdk_def reading_def Let_def bind_def consoleLog_def exportVariable_def
        onlyIf_def exec_def quietShell_def emit_def ret_def home gone sdkHomeOf_def)
  then have run: "installBaseSdk quietShell linuxRunner
                  = (Val True, snd (installBaseSdk quietShell linuxRunner))"
    by (simp add: prod_eq_iff)
  from C7_path_rewritten[OF run] show ?thesis
    unfolding home path by simp
qed

text \<open>
  C8. A run of \<^verbatim>\<open>installBaseSdk\<close> that finds \<^verbatim>\<open><ANDROID_HOME>/sdk_home\<close> does, in this order and
  as far as it gets: the log line, the export of \<^verbatim>\<open>ANDROID_SDK_HOME\<close>, the command
  \<^verbatim>\<open>mv <sdk_home> <sdk_home>.backup.<Date.now()>\<close>, the download, the unpacking, the removal of
  \<^verbatim>\<open>/tmp/android-sdk.zip\<close>, \<^verbatim>\<open>mkdir -p <sdk_home>\<close>, the export of \<^verbatim>\<open>PATH\<close>. The \<^verbatim>\<open>mv\<close> command
  is always issued; anything after it is issued only when \<^verbatim>\<open>mv\<close> has exited with 0, so the
  fresh directory is made only after the rename. The function deletes nothing but the
  downloaded archive: it never calls \<^verbatim>\<open>io.rmRF\<close>, and its one \<^verbatim>\<open>rm\<close> is of
  \<^verbatim>\<open>/tmp/android-sdk.zip\<close>.
\<close>

theorem C8_backup_before_fresh:
  assumes there: "existsSync (disk w) (androidHome w @ ''/sdk_home'')"
    and run: "installBaseSdk sh w = (r, w')"
  shows "\<exists>k. 3 \<le> k \<and> k \<le> 8
           \<and> trace w' = trace w @ take k
               [Log (''Installing Android SDK on '' @ androidHome w),
                ExportVariable ''ANDROID_SDK_HOME'' (androidHome w @ ''/sdk_home''),
                Exec (''mv '' @ androidHome w @ ''/sdk_home '' @ androidHome w @ ''/sdk_home.backup.''
                      @ showNat (now w)),
                Exec (''curl -L '' @ baseSdkUrl (isOnMac w) @ '' -o /tmp/android-sdk.zip -s''),
                Exec (''unzip -q /tmp/android-sdk.zip -d '' @ androidHome w),
                Exec ''rm /tmp/android-sdk.zip'',
                Exec (''mkdir -p '' @ androidHome w @ ''/sdk_home''),
                ExportVariable ''PATH'' (extraPaths (androidHome w) @ '':''
                                         @ pathWithoutAndroid (orElse (env w ''PATH'') []))]
           \<and> (r = Val True \<longleftrightarrow> k = 8)
           \<and> (3 < k \<longrightarrow>
                fst (sh (''mv '' @ androidHome w @ ''/sdk_home '' @ androidHome w @ ''/sdk_home.backup.''
                         @ showNat (now w))
                       ((env w)(''ANDROID_SDK_HOME'' := Some (androidHome w @ ''/sdk_home''))) (disk w)) = 0)
           \<and> (\<forall>p. RmRF p \<notin> set (trace w') - set (trace w))"
proof -
  let ?script = "[Log (''Installing Android SDK on '' @ androidHome w),
                ExportVariable ''ANDROID_SDK_HOME'' (androidHome w @ ''/sdk_home''),
                Exec (''mv '' @ androidHome w @ ''/sdk_home '' @ androidHome w @ ''/sdk_home.backup.''
                      @ showNat (now w)),
                Exec (''curl -L '' @ baseSdkUrl (isOnMac w) @ '' -o /tmp/android-sdk.zip -s''),
                Exec (''unzip -q /tmp/android-sdk.zip -d '' @ androidHome w),
                Exec ''rm /tmp/android-sdk.zip'',
                Exec (''mkdir -p '' @ androidHome w @ ''/sdk_home''),
                ExportVariable ''PATH'' (extraPaths (androidHome w) @ '':''
                                         @ pathWithoutAndroid (orElse (env w ''PATH'') []))]"
  from there have there': "existsSync (disk w) (sdkHomeOf (androidHome w))"
    by (simp add: sdkHomeOf_def)
  then have cs: "baseSdkCommands w =
      [''mv '' @ androidHome w @ ''/sdk_home '' @ androidHome w @ ''/sdk_home.backup.'' @ showNat (now w),
       ''curl -L '' @ baseSdkUrl (isOnMac w) @ '' -o /tmp/android-sdk.zip -s'',
       ''unzip -q /tmp/android-sdk.zip -d '' @ androidHome w,
       ''rm /tmp/android-sdk.zip'',
       ''mkdir -p '' @ androidHome w @ ''/sdk_home'']"
    by (simp add: baseSdkCommands_def backupCommand_def sdkHomeOf_def androidTmpPath_def)
  from installBaseSdk_run[OF run] obtain j where j0: "0 < j" "j \<le> length (baseSdkCommands w)"
      "trace w' = trace w
         @ [Log (''Installing Android SDK on '' @ androidHome w),
            ExportVariable ''ANDROID_SDK_HOME'' (sdkHomeOf (androidHome w))]
         @ map Exec (take j (baseSdkCommands w))
         @ (if r = Val True then [ExportVariable ''PATH'' (exportedPath w)] else [])"
      "r = Val True \<longrightarrow> j = length (baseSdkCommands w)"
    by blast
  have len: "length (baseSdkCommands w) = 5" by (simp add: cs)
  note j = j0(1) j0(2)[unfolded len] j0(3) j0(4)[unfolded len]
  define k where "k = 2 + j + (if r = Val True then 1 else 0)"
  from j(1,2) have "j = 1 \<or> j = 2 \<or> j = 3 \<or> j = 4 \<or> j = 5" by arith
  then have tr: "trace w' = trace w @ take k ?script"
    using j(3,4) unfolding cs k_def
    by (elim disjE) (simp_all add: sdkHomeOf_def exportedPath_def)
  have bounds: "3 \<le> k" "k \<le> 8" "r = Val True \<longleftrightarrow> k = 8"
    using j(1,2,4) by (auto simp: k_def)
  have mv: "fst (sh (''mv '' @ androidHome w @ ''/sdk_home '' @ androidHome w @ ''/sdk_home.backup.''
                         @ showNat (now w))
                       ((env w)(''ANDROID_SDK_HOME'' := Some (androidHome w @ ''/sdk_home''))) (disk w)) = 0"
    if "3 < k"
  proof (rule ccontr)
    assume "\<not> ?thesis"
    with installBaseSdk_backup_failed[OF there' _ run]
    have "length (trace w') = length (trace w) + 3"
      by (simp add: backupCommand_def sdkHomeOf_def)
    with tr bounds(2) that show False by simp
  qed
  have "RmRF p \<notin> set (take k ?script)" for p
    using in_set_takeD[of "RmRF p" k ?script] by auto
  with tr have "\<forall>p. RmRF p \<notin> set (trace w') - set (trace w)" by auto
  with tr bounds mv show ?thesis by blast
qed

theorem C8_backup_before_fresh_witness:
  "existsSync (disk macRunner) (androidHome macRunner @ ''/sdk_home'')
   \<and> (\<exists>k. 3 \<le> k
         \<and> trace (snd (installBaseSdk quietShell macRunner)) = take k
               [Log ''Installing Android SDK on /Android/sdk'',
                ExportVariable ''ANDROID_SDK_HOME'' ''/Android/sdk/sdk_home'',
                Exec (''mv /Android/sdk/sdk_home /Android/sdk/sdk_home.backup.'' @ showNat 1600000000000),
                Exec (''curl -L '' @ baseSdkUrl True @ '' -o /tmp/android-sdk.zip -s''),
                Exec ''unzip -q /tmp/android-sdk.zip -d /Android/sdk'',
                Exec ''rm /tmp/android-sdk.zip'',
                Exec ''mkdir -p /Android/sdk/sdk_home'',
                ExportVariable ''PATH'' (extraPaths ''/Android/sdk'' @ '':''
                                         @ pathWithoutAndroid ''/Android/sdk/tools:/usr/bin'')])"
proof -
  have run: "installBaseSdk quietShell macRunner =
      (fst (installBaseSdk quietShell macRunner), snd (installBaseSdk quietShell macRunner))"
    by simp
  have home: "androidHome macRunner = ''/Android/sdk''"
    by (simp add: macRunner_def androidHome_def interp_def)
  have there: "existsSync (disk macRunner) (androidHome macRunner @ ''/sdk_home'')"
    unfolding home by (simp add: macRunner_def existsSync_def underDirs_def ancestors_def)
  have host: "isOnMac macRunner" "now macRunner = 1600000000000" "trace macRunner = []"
    "orElse (env macRunner ''PATH'') [] = ''/Android/sdk/tools:/usr/bin''"
    by (simp_all add: macRunner_def isOnMac_def orElse_def)
  from C8_backup_before_fresh[OF there run] obtain k where k: "3 \<le> k"
    and tr: "trace (snd (installBaseSdk quietShell macRunner)) = trace macRunner @ take k
               [Log (''Installing Android SDK on '' @ androidHome macRunner),
                ExportVariable ''ANDROID_SDK_HOME'' (androidHome macRunner @ ''/sdk_home''),
                Exec (''mv '' @ androidHome macRunner @ ''/sdk_home '' @ androidHome macRunner
                      @ ''/sdk_home.backup.'' @ showNat (now macRunner)),
                Exec (''curl -L '' @ baseSdkUrl (isOnMac macRunner) @ '' -o /tmp/android-sdk.zip -s''),
                Exec (''unzip -q /tmp/android-sdk.zip -d '' @ androidHome macRunner),
                Exec ''rm /tmp/android-sdk.zip'',
                Exec (''mkdir -p '' @ androidHome macRunner @ ''/sdk_home''),
                ExportVariable ''PATH'' (extraPaths (androidHome macRunner) @ '':''
                                         @ pathWithoutAndroid (orElse (env macRunner ''PATH'') []))]"
    by blast
  from there k tr[unfolded home host] show ?thesis
    by (intro conjI exI[of _ k]) (simp_all add: host)
qed

text \<open>
  C9. Where the SDK root and its \<^verbatim>\<open>cmdline-tools\<close> directory exist at the call, and the
  \<^verbatim>\<open>chown\<close> command (when it is run) leaves the \<^verbatim>\<open>cmdline-tools\<close> directory in place,
  the run exports nothing: no \<^verbatim>\<open>core.addPath\<close>, no \<^verbatim>\<open>core.exportVariable\<close>, and the
  environment of the process at the end is the one at the call (so \<^verbatim>\<open>PATH\<close> and
  \<^verbatim>\<open>ANDROID_SDK_HOME\<close> are as they were).
\<close>

theorem C9_nothing_exported:
  assumes root: "existsSync (disk w) (androidHome w)"
    and tools: "existsSync (disk w) (androidHome w @ ''/cmdline-tools'')"
    and chown: "\<And>e d. existsSync d (androidHome w @ ''/cmdline-tools'') \<Longrightarrow>
                  existsSync (snd (sh (chownCommand (androidHome w)) e d)) (androidHome w @ ''/cmdline-tools'')"
    and run: "installAndroidSdk sh apiLevel target arch emulatorBuild ndkVersion cmakeVersion w = (r, w')"
  shows "env w' = env w
         \<and> (\<exists>evs. trace w' = trace w @ evs
               \<and> (\<forall>p. AddPath p \<notin> set evs) \<and> (\<forall>name val. ExportVariable name val \<notin> set evs))"
proof (cases "truthy (env w ''ANDROID_HOME'')")
  case False
  from run run_falsy[OF False] have "env w' = env w" and "trace w' = trace w @
      [SetFailed (''ANDROID_HOME is a required environment variable and is not set.'' @ nl
                  @ ''Please double check your host settings.'')]"
    by (auto simp: emit_def)
  then show ?thesis by simp
next
  case True
  let ?G = "\<lambda>e. (\<forall>p. e \<noteq> AddPath p) \<and> (\<forall>name val. e \<noteq> ExportVariable name val)"
  have "env w' = env w \<and> (\<exists>evs. trace w' = trace w @ evs \<and> list_all ?G evs)"
  proof (rule warm_run[OF True root _ _ _ _ _ _ run])
    show "existsSync (disk w) (cmdlineToolsPathOf (androidHome w))"
      using tools by (simp add: cmdlineToolsPathOf_def)
    show "existsSync (snd (sh (chownCommand (androidHome w)) e d)) (cmdlineToolsPathOf (androidHome w))"
      if "existsSync d (cmdlineToolsPathOf (androidHome w))" for e d
      using that chown[of d e] by (simp add: cmdlineToolsPathOf_def)
    show "list_all ?G (markerEvents (isOnMac w) apiLevel (androidHome w))"
      by (simp add: markerEvents_def)
    show "list_all ?G (lateEvents apiLevel target arch emulatorBuild ndkVersion cmakeVersion
                     (isOnMac w) (androidHome w))"
      by (simp add: lateEvents_def platformEvents_def finalEvents_def emulatorEvents_def)
  qed simp_all
  then show ?thesis
    by (simp add: list_all_iff) blast
qed

theorem C9_nothing_exported_witness:
  "existsSync (disk linuxRunner) (androidHome linuxRunner)
   \<and> existsSync (disk linuxRunner) (androidHome linuxRunner @ ''/cmdline-tools'')
   \<and> env (snd (installAndroidSdk quietShell 30 ''google_apis'' ''x86_64'' None None None linuxRunner))
       = env linuxRunner"
proof -
  have run: "installAndroidSdk quietShell 30 ''google_apis'' ''x86_64'' None None None linuxRunner =
      (fst (installAndroidSdk quietShell 30 ''google_apis'' ''x86_64'' None None None linuxRunner),
       snd (installAndroidSdk quietShell 30 ''google_apis'' ''x86_64'' None None None linuxRunner))"
    by simp
  have root: "existsSync (disk linuxRunner) (androidHome linuxRunner)"
    by (simp add: linuxRunner_def androidHome_def interp_def existsSync_def underDirs_def ancestors_def)
  have tools: "existsSync (disk linuxRunner) (androidHome linuxRunner @ ''/cmdline-tools'')"
    by (simp add: linuxRunner_def androidHome_def interp_def existsSync_def underDirs_def ancestors_def)
  have chown: "existsSync (snd (quietShell (chownCommand (androidHome linuxRunner)) e d))
                 (androidHome linuxRunner @ ''/cmdline-tools'')"
    if "existsSync d (androidHome linuxRunner @ ''/cmdline-tools'')" for e d
    using that by (simp add: quietShell_def)
  from root tools C9_nothing_exported[OF root tools chown run] show ?thesis
    by simp
qed

text \<open>
  C10. Take a run that starts with \<^verbatim>\<open>ANDROID_HOME\<close> set, the SDK root a directory that
  exists and no \<^verbatim>\<open><ANDROID_HOME>/licenses\<close>, on a host that is not macOS or with API level
  30, the commands that can run before the marker step (\<^verbatim>\<open>chown\<close>, and the \<^verbatim>\<open>curl\<close> and
  \<^verbatim>\<open>unzip\<close> of the command-line tools) not making that directory. The run ends with a
  rejection. If it gets to the marker step, the rejection is the \<^verbatim>\<open>ENOENT\<close> of
  \<^verbatim>\<open>fs.writeFileSync\<close> on the first marker that is tried, and nothing is done after it.
  In any case no \<^verbatim>\<open>sdkmanager --install\<close> command has been run, no file has been written,
  and nothing has made the licenses directory: no \<^verbatim>\<open>mkdir -p\<close> command (those are in
  \<^verbatim>\<open>installBaseSdk\<close> and \<^verbatim>\<open>acceptLicenses\<close> only) and no \<^verbatim>\<open>io.mkdirP\<close> of it.
\<close>

theorem C10_marker_writes_unguarded:
  assumes home: "truthy (env w ''ANDROID_HOME'')"
    and root: "existsSync (disk w) (androidHome w)" "disk w (androidHome w) = Some Dir"
    and nolic: "\<not> existsSync (disk w) (androidHome w @ ''/licenses'')"
    and shell: "\<And>c e d. c \<in> {chownCommand (androidHome w),
                            ''curl -fo commandlinetools.zip '' @ cmdlineToolsUrl (isOnMac w),
                            ''unzip -q commandlinetools.zip -d '' @ androidHome w @ ''/cmdline-tools''} \<Longrightarrow>
                   d (androidHome w @ ''/licenses'') \<noteq> Some Dir \<Longrightarrow>
                   snd (sh c e d) (androidHome w @ ''/licenses'') \<noteq> Some Dir"
    and plat: "\<not> isOnMac w \<or> apiLevel = 30"
    and run: "installAndroidSdk sh apiLevel target arch emulatorBuild ndkVersion cmakeVersion w = (r, w')"
  shows "(\<exists>e. r = Thrown e)
         \<and> (\<forall>w3. block [ensureBaseSdk sh, normalizeOwnership sh, installCmdlineTools sh] w = (Val (), w3) \<longrightarrow>
               r = Thrown (ENOENT (if isOnMac w then sdkArmDbtLicensePath (androidHome w)
                                   else sdkPreviewLicensePath (androidHome w)))
               \<and> w' = w3)
         \<and> (\<exists>evs. trace w' = trace w @ evs
               \<and> (\<forall>pkgs. Exec (sdkmanagerInstall pkgs) \<notin> set evs)
               \<and> (\<forall>p c. WriteFile p c \<notin> set evs)
               \<and> (\<forall>x. Exec (''mkdir -p '' @ x) \<notin> set evs)
               \<and> MkdirP (androidHome w @ ''/licenses'') \<notin> set evs)"
proof -
  let ?G = "\<lambda>e. (\<forall>pkgs. e \<noteq> Exec (sdkmanagerInstall pkgs)) \<and> (\<forall>p c. e \<noteq> WriteFile p c)
                \<and> (\<forall>x. e \<noteq> Exec (''mkdir -p '' @ x)) \<and> e \<noteq> MkdirP (androidHome w @ ''/licenses'')"
  from root have "underDirs (disk w) (androidHome w @ ''/licenses'')"
    by (simp add: underDirs_def ancestors_child existsSync_def)
  with nolic have none: "disk w (androidHome w @ ''/licenses'') \<noteq> Some Dir"
    by (auto simp: existsSync_def)
  have "(\<exists>e. r = Thrown e)
         \<and> (\<forall>w3. block [ensureBaseSdk sh, normalizeOwnership sh, installCmdlineTools sh] w = (Val (), w3) \<longrightarrow>
               r = Thrown (ENOENT (if isOnMac w then sdkArmDbtLicensePath (androidHome w)
                                   else sdkPreviewLicensePath (androidHome w)))
               \<and> w' = w3)
         \<and> (\<exists>evs. trace w' = trace w @ evs \<and> list_all ?G evs)"
  proof (rule no_licenses_run[where G = ?G, OF home root(1) none shell plat _ _ _ run])
    show "?G (Log ''Using previous installation of base Android SDK, found on ${process.env.ANDROID_HOME}'')"
      by simp
    show "list_all ?G (ownershipEvents (isOnMac w) (inputs w ''fresh-sdk-installation'') (androidHome w))"
      by (simp add: ownershipEvents_def chownCommand_def sdkmanagerInstall_def)
    show "list_all ?G (toolsEvents (isOnMac w) (androidHome w))"
      by (simp add: toolsEvents_def sdkmanagerInstall_def)
  qed
  note res = this
  from res have failed: "\<exists>e. r = Thrown e"
    by (rule conjunct1)
  from res have reached:
    "\<forall>w3. block [ensureBaseSdk sh, normalizeOwnership sh, installCmdlineTools sh] w = (Val (), w3) \<longrightarrow>
               r = Thrown (ENOENT (if isOnMac w then sdkArmDbtLicensePath (androidHome w)
                                   else sdkPreviewLicensePath (androidHome w)))
               \<and> w' = w3"
    by (rule conjunct1[OF conjunct2])
  from conjunct2[OF conjunct2[OF res]] obtain evs where
    evs: "trace w' = trace w @ evs" "list_all ?G evs"
    by (elim exE conjE)
  from evs(2) have none:
    "\<forall>pkgs. Exec (sdkmanagerInstall pkgs) \<notin> set evs"
    "\<forall>p c. WriteFile p c \<notin> set evs"
    "\<forall>x. Exec (''mkdir -p '' @ x) \<notin> set evs"
    "MkdirP (androidHome w @ ''/licenses'') \<notin> set evs"
    unfolding list_all_iff by blast+
  show ?thesis
    apply (intro conjI)
      apply (rule failed)
     apply (rule reached)
    apply (rule exI[of _ evs])
    apply (intro conjI)
        apply (rule evs(1))
       apply (rule none(1))
      apply (rule none(2))
     apply (rule none(3))
    apply (rule none(4))
    done
qed

theorem C10_marker_writes_unguarded_witness:
  "existsSync (disk bareRunner) (androidHome bareRunner)
   \<and> \<not> existsSync (disk bareRunner) (androidHome bareRunner @ ''/licenses'')
   \<and> fst (installAndroidSdk quietShell 29 ''google_apis'' ''x86_64'' None None None bareRunner)
       = Thrown (ENOENT ''/opt/sdk/licenses/android-sdk-preview-license'')"
proof -
  have run: "installAndroidSdk quietShell 29 ''google_apis'' ''x86_64'' None None None bareRunner =
      (fst (installAndroidSdk quietShell 29 ''google_apis'' ''x86_64'' None None None bareRunner),
       snd (installAndroidSdk quietShell 29 ''google_apis'' ''x86_64'' None None None bareRunner))"
    by simp
  have home: "androidHome bareRunner = ''/opt/sdk''" "truthy (env bareRunner ''ANDROID_HOME'')"
    and host: "\<not> isOnMac bareRunner"
    by (simp_all add: bareRunner_def androidHome_def interp_def truthy_def isOnMac_def)
  have disk: "existsSync (disk bareRunner) (androidHome bareRunner)"
    "disk bareRunner (androidHome bareRunner) = Some Dir"
    "\<not> existsSync (disk bareRunner) (androidHome bareRunner @ ''/licenses'')"
    "existsSync (disk bareRunner) (androidHome bareRunner @ ''/cmdline-tools'')"
    unfolding home
    by (simp_all add: bareRunner_def existsSync_def underDirs_def ancestors_def)
  have shell: "snd (quietShell c e d) (androidHome bareRunner @ ''/licenses'') \<noteq> Some Dir"
    if "c \<in> {chownCommand (androidHome bareRunner),
              ''curl -fo commandlinetools.zip '' @ cmdlineToolsUrl (isOnMac bareRunner),
              ''unzip -q commandlinetools.zip -d '' @ androidHome bareRunner @ ''/cmdline-tools''}"
      "d (androidHome bareRunner @ ''/licenses'') \<noteq> Some Dir" for c e d
    using that(2) by (simp add: quietShell_def)
  from quiet_reach[OF disk(1,4)] obtain w3 where
    w3: "block [ensureBaseSdk quietShell, normalizeOwnership quietShell,
                installCmdlineTools quietShell] bareRunner = (Val (), w3)"
    by blast
  from C10_marker_writes_unguarded[OF home(2) disk(1,2,3) shell _ run] host w3
  have "fst (installAndroidSdk quietShell 29 ''google_apis'' ''x86_64'' None None None bareRunner)
       = Thrown (ENOENT (sdkPreviewLicensePath (androidHome bareRunner)))"
    by simp
  with disk(1,3) show ?thesis
    by (simp add: home sdkPreviewLicensePath_def)
qed

end
